theory Spec2Isabelle
  imports Complex_Main
begin

section \<open>Telemetry records (app/core/models.py)\<close>

text \<open>
  Timestamps are the naive UTC datetimes the validators let through; they are modelled as
  a count of microseconds on one time line, and a timedelta as a difference of such counts.
  The store only ever compares timestamps and subtracts the retention horizon from the
  current time.

  The pydantic models carry further fields (attributes, labels, events, analysis
  placeholders) that no store operation reads; the records keep the fields the store and
  the trace constructor use. Field names carry the record's name as a prefix where two
  models share a name (\<open>id\<close>, \<open>timestamp\<close>, \<open>service_name\<close>, \<open>trace_id\<close>).
  \<open>LogEntry.level\<close> is stored as the enum's string value (\<open>use_enum_values\<close>).
\<close>

type_synonym datetime = int
type_synonym timedelta = int

record LogEntry =
  log_id :: string
  log_timestamp :: datetime
  log_service_name :: string
  level :: string
  message :: string

record MetricDataPoint =
  metric_id :: string
  metric_timestamp :: datetime
  metric_service_name :: string
  metric_name :: string
  metric_value :: real

datatype SpanStatus = OK | ERROR | UNSET

record Span =
  span_trace_id :: string
  span_id :: string
  parent_span_id :: "string option"
  span_service_name :: string
  operation_name :: string
  start_time :: datetime
  end_time :: datetime
  duration_ms :: real
  status :: SpanStatus

record Trace =
  trace_id :: string
  spans :: "Span list"
  root_service :: "string option"
  total_duration_ms :: real
  has_error :: bool

text \<open>
  \<open>Trace.model_post_init\<close>: runs once after the fields are set. The first loop stops at
  the first span without a parent (\<open>find\<close>); the duration is taken from the first element
  of the list of parentless spans.
\<close>

definition model_post_init :: "Trace \<Rightarrow> Trace" where
  "model_post_init self =
     (if spans self \<noteq> [] then
        (let self1 = (case find (\<lambda>sp. parent_span_id sp = None) (spans self) of
                        Some sp \<Rightarrow> self\<lparr>root_service := Some (span_service_name sp)\<rparr>
                      | None \<Rightarrow> self);
             self2 = self1\<lparr>has_error := list_ex (\<lambda>sp. status sp = ERROR) (spans self1)\<rparr>;
             root_spans = filter (\<lambda>s. parent_span_id s = None) (spans self2)
         in (case root_spans of
               [] \<Rightarrow> self2
             | r # _ \<Rightarrow> self2\<lparr>total_duration_ms := duration_ms r\<rparr>))
      else self)"

text \<open>
  The constructor with every field given, and the call \<open>Trace(trace_id=..., spans=...)\<close>
  that \<open>validate_trace\<close> makes, where the derived fields start from their defaults.
\<close>

definition Trace_init :: "string \<Rightarrow> Span list \<Rightarrow> string option \<Rightarrow> real \<Rightarrow> bool \<Rightarrow> Trace" where
  "Trace_init tid sps rs td he =
     model_post_init \<lparr>trace_id = tid, spans = sps, root_service = rs,
                      total_duration_ms = td, has_error = he\<rparr>"

definition Trace_new :: "string \<Rightarrow> Span list \<Rightarrow> Trace" where
  "Trace_new tid sps = Trace_init tid sps None 0 False"

section \<open>Python dictionaries in insertion order\<close>

text \<open>
  A \<open>dict\<close> iterates in the order its keys were first inserted; assigning to an existing
  key keeps the key's position, and \<open>del\<close> of a missing key raises \<open>KeyError\<close>.
\<close>

type_synonym ('k, 'v) dict = "('k \<times> 'v) list"

datatype error = KeyError string | IndexError | StopIteration

definition dict_keys :: "('k, 'v) dict \<Rightarrow> 'k list" where
  "dict_keys d = map fst d"

definition dict_get :: "('k, 'v) dict \<Rightarrow> 'k \<Rightarrow> 'v option" where
  "dict_get d k = map_of d k"

definition dict_get_or :: "('k, 'v) dict \<Rightarrow> 'k \<Rightarrow> 'v \<Rightarrow> 'v" where
  "dict_get_or d k dflt = (case map_of d k of None \<Rightarrow> dflt | Some v \<Rightarrow> v)"

fun dict_set :: "('k, 'v) dict \<Rightarrow> 'k \<Rightarrow> 'v \<Rightarrow> ('k, 'v) dict" where
  "dict_set [] k v = [(k, v)]"
| "dict_set ((k', v') # d) k v =
     (if k' = k then (k, v) # d else (k', v') # dict_set d k v)"

fun dict_del :: "('k, 'v) dict \<Rightarrow> 'k \<Rightarrow> ('k, 'v) dict option" where
  "dict_del [] k = None"
| "dict_del ((k', v') # d) k =
     (if k' = k then Some d else map_option ((#) (k', v')) (dict_del d k))"

section \<open>The telemetry store (app/ingestion/repository.py)\<close>

record Settings =
  telemetry_retention_hours :: int
  max_logs_per_service :: int
  max_metrics_per_service :: int
  cfg_max_traces :: int

definition default_settings :: Settings where
  "default_settings =
     \<lparr>telemetry_retention_hours = 24, max_logs_per_service = 100000,
      max_metrics_per_service = 100000, cfg_max_traces = 50000\<rparr>"

text \<open>
  The per-service lists and the trace table are dictionaries whose iteration order the
  queries and the eviction observe; the two by-id indexes are only ever looked up, set
  and deleted by key, so they are finite maps. The three counters of \<open>_stats\<close> are fields.
\<close>

record TelemetryStore =
  retention :: timedelta
  max_logs :: int
  max_metrics :: int
  max_traces :: int
  logs :: "(string, LogEntry list) dict"
  metrics :: "(string, MetricDataPoint list) dict"
  traces :: "(string, Trace) dict"
  logs_by_id :: "string \<rightharpoonup> LogEntry"
  metrics_by_id :: "string \<rightharpoonup> MetricDataPoint"
  services :: "string set"
  logs_ingested :: int
  metrics_ingested :: int
  traces_ingested :: int

text \<open>\<open>x or d\<close> on an optional integer: \<open>None\<close> and \<open>0\<close> are both falsy.\<close>

definition py_or :: "int option \<Rightarrow> int \<Rightarrow> int" where
  "py_or x d = (case x of None \<Rightarrow> d | Some v \<Rightarrow> if v = 0 then d else v)"

definition timedelta_hours :: "int \<Rightarrow> timedelta" where
  "timedelta_hours h = h * 3600000000"

definition TelemetryStore_init ::
  "Settings \<Rightarrow> int option \<Rightarrow> int option \<Rightarrow> int option \<Rightarrow> int option \<Rightarrow> TelemetryStore" where
  "TelemetryStore_init settings retention_hours max_logs_arg max_metrics_arg max_traces_arg =
     \<lparr>retention = timedelta_hours (py_or retention_hours (telemetry_retention_hours settings)),
      max_logs = py_or max_logs_arg (max_logs_per_service settings),
      max_metrics = py_or max_metrics_arg (max_metrics_per_service settings),
      max_traces = py_or max_traces_arg (cfg_max_traces settings),
      logs = [], metrics = [], traces = [],
      logs_by_id = Map.empty, metrics_by_id = Map.empty,
      services = {},
      logs_ingested = 0, metrics_ingested = 0, traces_ingested = 0\<rparr>"

subsection \<open>Log operations\<close>

text \<open>
  \<open>self._logs[service]\<close> on the \<open>defaultdict\<close> reads the list of a service and creates an
  empty one for a new service; \<open>self._logs.get(service, [])\<close> only reads.
\<close>

definition stored_logs :: "TelemetryStore \<Rightarrow> string \<Rightarrow> LogEntry list" where
  "stored_logs s service = dict_get_or (logs s) service []"

text \<open>
  \<open>add_log\<close> returns the store as the call leaves it together with the returned id or the
  exception raised: \<open>pop(0)\<close> raises \<open>IndexError\<close> on an empty list and \<open>del\<close> raises
  \<open>KeyError\<close> when the evicted entry's id is not in the index; both leave the mutations
  made before them in place.
\<close>

definition add_log :: "TelemetryStore \<Rightarrow> LogEntry \<Rightarrow> TelemetryStore \<times> (error + string)" where
  "add_log s entry =
     (let service = log_service_name entry;
          s1 = s\<lparr>logs := dict_set (logs s) service (stored_logs s service @ [entry]),
                 logs_by_id := (logs_by_id s)(log_id entry \<mapsto> entry),
                 services := insert service (services s),
                 logs_ingested := logs_ingested s + 1\<rparr>
      in if int (length (stored_logs s1 service)) > max_logs s1 then
           (case stored_logs s1 service of
              [] \<Rightarrow> (s1, Inl IndexError)
            | removed # rest \<Rightarrow>
                (let s2 = s1\<lparr>logs := dict_set (logs s1) service rest\<rparr>
                 in case logs_by_id s2 (log_id removed) of
                      None \<Rightarrow> (s2, Inl (KeyError (log_id removed)))
                    | Some _ \<Rightarrow>
                        (s2\<lparr>logs_by_id := (logs_by_id s2)(log_id removed := None)\<rparr>,
                         Inr (log_id entry))))
         else (s1, Inr (log_id entry)))"

text \<open>The store after a sequence of \<open>add_log\<close> calls, one call per element.\<close>

definition add_log_calls :: "TelemetryStore \<Rightarrow> LogEntry list \<Rightarrow> TelemetryStore" where
  "add_log_calls s ls = fold (\<lambda>entry s'. fst (add_log s' entry)) ls s"

definition get_log_by_id :: "TelemetryStore \<Rightarrow> string \<Rightarrow> LogEntry option" where
  "get_log_by_id s lid = logs_by_id s lid"

text \<open>
  \<open>services or list(self._logs.keys())\<close> and \<open>levels and ...\<close>: \<open>None\<close> and the empty list
  are both falsy.
\<close>

definition list_or :: "'a list option \<Rightarrow> 'a list \<Rightarrow> 'a list" where
  "list_or x d = (case x of None \<Rightarrow> d | Some [] \<Rightarrow> d | Some (y # ys) \<Rightarrow> y # ys)"

definition truthy :: "'a list option \<Rightarrow> bool" where
  "truthy x = (case x of None \<Rightarrow> False | Some [] \<Rightarrow> False | Some (y # ys) \<Rightarrow> True)"

definition not_in_filter :: "'a list option \<Rightarrow> 'a \<Rightarrow> bool" where
  "not_in_filter x a = (case x of None \<Rightarrow> False | Some ys \<Rightarrow> a \<notin> set ys)"

text \<open>The \<open>results\<close> list of \<open>get_logs_in_window\<close> as the two loops fill it, before sorting.\<close>

definition scan_logs ::
  "TelemetryStore \<Rightarrow> datetime \<Rightarrow> datetime \<Rightarrow> string list option \<Rightarrow> string list option
     \<Rightarrow> LogEntry list" where
  "scan_logs s start endt services_arg levels =
     (let target_services = list_or services_arg (dict_keys (logs s))
      in concat (map (\<lambda>service.
            filter (\<lambda>entry. \<not> (\<not> (start \<le> log_timestamp entry \<and> log_timestamp entry \<le> endt))
                        \<and> \<not> (truthy levels \<and> not_in_filter levels (level entry)))
                   (dict_get_or (logs s) service []))
          target_services))"

definition get_logs_in_window ::
  "TelemetryStore \<Rightarrow> datetime \<Rightarrow> datetime \<Rightarrow> string list option \<Rightarrow> string list option
     \<Rightarrow> LogEntry list" where
  "get_logs_in_window s start endt services_arg levels =
     sort_key log_timestamp (scan_logs s start endt services_arg levels)"

definition get_error_logs_in_window ::
  "TelemetryStore \<Rightarrow> datetime \<Rightarrow> datetime \<Rightarrow> string list option \<Rightarrow> LogEntry list" where
  "get_error_logs_in_window s start endt services_arg =
     get_logs_in_window s start endt services_arg (Some [''ERROR'', ''FATAL'', ''CRITICAL''])"

subsection \<open>Metric operations\<close>

definition stored_metrics :: "TelemetryStore \<Rightarrow> string \<Rightarrow> MetricDataPoint list" where
  "stored_metrics s service = dict_get_or (metrics s) service []"

definition add_metric ::
  "TelemetryStore \<Rightarrow> MetricDataPoint \<Rightarrow> TelemetryStore \<times> (error + string)" where
  "add_metric s metric =
     (let service = metric_service_name metric;
          s1 = s\<lparr>metrics := dict_set (metrics s) service (stored_metrics s service @ [metric]),
                 metrics_by_id := (metrics_by_id s)(metric_id metric \<mapsto> metric),
                 services := insert service (services s),
                 metrics_ingested := metrics_ingested s + 1\<rparr>
      in if int (length (stored_metrics s1 service)) > max_metrics s1 then
           (case stored_metrics s1 service of
              [] \<Rightarrow> (s1, Inl IndexError)
            | removed # rest \<Rightarrow>
                (let s2 = s1\<lparr>metrics := dict_set (metrics s1) service rest\<rparr>
                 in case metrics_by_id s2 (metric_id removed) of
                      None \<Rightarrow> (s2, Inl (KeyError (metric_id removed)))
                    | Some _ \<Rightarrow>
                        (s2\<lparr>metrics_by_id := (metrics_by_id s2)(metric_id removed := None)\<rparr>,
                         Inr (metric_id metric))))
         else (s1, Inr (metric_id metric)))"

definition add_metric_calls :: "TelemetryStore \<Rightarrow> MetricDataPoint list \<Rightarrow> TelemetryStore" where
  "add_metric_calls s ms = fold (\<lambda>metric s'. fst (add_metric s' metric)) ms s"

definition get_metric_by_id :: "TelemetryStore \<Rightarrow> string \<Rightarrow> MetricDataPoint option" where
  "get_metric_by_id s mid = metrics_by_id s mid"

definition get_metric_series ::
  "TelemetryStore \<Rightarrow> string \<Rightarrow> string \<Rightarrow> datetime \<Rightarrow> datetime \<Rightarrow> MetricDataPoint list" where
  "get_metric_series s service name start endt =
     sort_key metric_timestamp
       (filter (\<lambda>metric. \<not> (metric_name metric \<noteq> name)
                  \<and> (start \<le> metric_timestamp metric \<and> metric_timestamp metric \<le> endt))
          (dict_get_or (metrics s) service []))"

definition scan_metrics ::
  "TelemetryStore \<Rightarrow> datetime \<Rightarrow> datetime \<Rightarrow> string list option \<Rightarrow> string list option
     \<Rightarrow> MetricDataPoint list" where
  "scan_metrics s start endt services_arg metric_names =
     (let target_services = list_or services_arg (dict_keys (metrics s))
      in concat (map (\<lambda>service.
            filter (\<lambda>metric.
                      \<not> (\<not> (start \<le> metric_timestamp metric \<and> metric_timestamp metric \<le> endt))
                      \<and> \<not> (truthy metric_names \<and> not_in_filter metric_names (metric_name metric)))
                   (dict_get_or (metrics s) service []))
          target_services))"

definition get_metrics_in_window ::
  "TelemetryStore \<Rightarrow> datetime \<Rightarrow> datetime \<Rightarrow> string list option \<Rightarrow> string list option
     \<Rightarrow> MetricDataPoint list" where
  "get_metrics_in_window s start endt services_arg metric_names =
     sort_key metric_timestamp (scan_metrics s start endt services_arg metric_names)"

subsection \<open>Trace operations\<close>

text \<open>
  \<open>next(iter(self._traces))\<close> is the first key in insertion order and raises
  \<open>StopIteration\<close> on an empty dictionary.
\<close>

definition add_trace :: "TelemetryStore \<Rightarrow> Trace \<Rightarrow> TelemetryStore \<times> (error + string)" where
  "add_trace s trace =
     (let s1 = s\<lparr>traces := dict_set (traces s) (trace_id trace) trace,
                 traces_ingested := traces_ingested s + 1,
                 services := services s \<union> set (map span_service_name (spans trace))\<rparr>
      in if int (length (traces s1)) > max_traces s1 then
           (case traces s1 of
              [] \<Rightarrow> (s1, Inl StopIteration)
            | (oldest_id, _) # _ \<Rightarrow>
                (case dict_del (traces s1) oldest_id of
                   None \<Rightarrow> (s1, Inl (KeyError oldest_id))
                 | Some d \<Rightarrow> (s1\<lparr>traces := d\<rparr>, Inr (trace_id trace))))
         else (s1, Inr (trace_id trace)))"

definition add_trace_calls :: "TelemetryStore \<Rightarrow> Trace list \<Rightarrow> TelemetryStore" where
  "add_trace_calls s ts = fold (\<lambda>trace s'. fst (add_trace s' trace)) ts s"

definition get_trace_by_id :: "TelemetryStore \<Rightarrow> string \<Rightarrow> Trace option" where
  "get_trace_by_id s tid = dict_get (traces s) tid"

subsection \<open>Maintenance operations\<close>

text \<open>
  One pass of \<open>for service in list(d.keys()): d[service] = [x for x in d[service] if
  ts(x) > cutoff]\<close> with the running count of removed entries; the log loop and the metric
  loop of \<open>cleanup_old_data\<close> are this pass at the two timestamp fields.
\<close>

fun sweep_lists ::
  "('a \<Rightarrow> datetime) \<Rightarrow> datetime \<Rightarrow> string list \<Rightarrow> (string, 'a list) dict \<Rightarrow> int
     \<Rightarrow> (string, 'a list) dict \<times> int" where
  "sweep_lists ts cutoff [] d removed = (d, removed)"
| "sweep_lists ts cutoff (service # rest) d removed =
     (let original = length (dict_get_or d service []);
          kept = filter (\<lambda>x. ts x > cutoff) (dict_get_or d service []);
          d' = dict_set d service kept
      in sweep_lists ts cutoff rest d'
           (removed + (int original - int (length (dict_get_or d' service [])))))"

text \<open>
  \<open>max(xs, key=f)\<close> on a non-empty list: the first element with the greatest key (a later
  element replaces the best only when its key is strictly greater).
\<close>

fun max_by_key :: "('a \<Rightarrow> int) \<Rightarrow> 'a \<Rightarrow> 'a list \<Rightarrow> 'a" where
  "max_by_key f best [] = best"
| "max_by_key f best (x # xs) = max_by_key f (if f x > f best then x else best) xs"

definition trace_expired :: "datetime \<Rightarrow> Trace \<Rightarrow> bool" where
  "trace_expired cutoff trace =
     (case spans trace of
        [] \<Rightarrow> False
      | sp # sps \<Rightarrow> end_time (max_by_key end_time sp sps) < cutoff)"

fun remove_traces ::
  "(string, Trace) dict \<Rightarrow> string list \<Rightarrow> (string, Trace) dict \<times> error option" where
  "remove_traces d [] = (d, None)"
| "remove_traces d (tid # rest) =
     (case dict_del d tid of
        None \<Rightarrow> (d, Some (KeyError tid))
      | Some d' \<Rightarrow> remove_traces d' rest)"

record removed_counts =
  removed_logs :: int
  removed_metrics :: int
  removed_traces :: int

text \<open>\<open>now\<close> is the value of \<open>datetime.utcnow()\<close> at the call.\<close>

definition cleanup_old_data ::
  "TelemetryStore \<Rightarrow> datetime \<Rightarrow> TelemetryStore \<times> (error + removed_counts)" where
  "cleanup_old_data s now =
     (let cutoff = now - retention s;
          (logs', n_logs) = sweep_lists log_timestamp cutoff (dict_keys (logs s)) (logs s) 0;
          (metrics', n_metrics) =
             sweep_lists metric_timestamp cutoff (dict_keys (metrics s)) (metrics s) 0;
          traces_to_remove =
             map fst (filter (\<lambda>(tid, trace). trace_expired cutoff trace) (traces s));
          (traces', err) = remove_traces (traces s) traces_to_remove;
          s' = s\<lparr>logs := logs', metrics := metrics', traces := traces'\<rparr>
      in case err of
           Some e \<Rightarrow> (s', Inl e)
         | None \<Rightarrow>
             (s', Inr \<lparr>removed_logs = n_logs, removed_metrics = n_metrics,
                       removed_traces = int (length traces_to_remove)\<rparr>))"

record store_stats =
  stat_logs_ingested :: int
  stat_metrics_ingested :: int
  stat_traces_ingested :: int
  services_count :: int
  logs_stored :: int
  metrics_stored :: int
  traces_stored :: int

definition get_stats :: "TelemetryStore \<Rightarrow> store_stats" where
  "get_stats s =
     \<lparr>stat_logs_ingested = logs_ingested s,
      stat_metrics_ingested = metrics_ingested s,
      stat_traces_ingested = traces_ingested s,
      services_count = int (card (services s)),
      logs_stored = int (sum_list (map (\<lambda>(service, ls). length ls) (logs s))),
      metrics_stored = int (sum_list (map (\<lambda>(service, ms). length ms) (metrics s))),
      traces_stored = int (length (traces s))\<rparr>"

definition clear :: "TelemetryStore \<Rightarrow> TelemetryStore" where
  "clear s =
     s\<lparr>logs := [], metrics := [], traces := [],
       logs_by_id := Map.empty, metrics_by_id := Map.empty,
       services := {}\<rparr>"

section \<open>Example values\<close>

text \<open>
  A store built with explicit bounds (three logs and three metrics per service, two
  traces, the default retention of 24 hours) and constructors for small records.
\<close>

definition ex_store :: TelemetryStore where
  "ex_store = TelemetryStore_init default_settings None (Some 3) (Some 3) (Some 2)"

definition ex_log :: "string \<Rightarrow> string \<Rightarrow> datetime \<Rightarrow> LogEntry" where
  "ex_log lid service t =
     \<lparr>log_id = lid, log_timestamp = t, log_service_name = service,
      level = ''INFO'', message = ''m''\<rparr>"

definition ex_metric :: "string \<Rightarrow> string \<Rightarrow> string \<Rightarrow> datetime \<Rightarrow> MetricDataPoint" where
  "ex_metric mid service name t =
     \<lparr>metric_id = mid, metric_timestamp = t, metric_service_name = service,
      metric_name = name, metric_value = 1\<rparr>"

definition ex_five_logs :: "LogEntry list" where
  "ex_five_logs =
     [ex_log ''1'' ''x'' 1, ex_log ''2'' ''x'' 2, ex_log ''3'' ''x'' 3,
      ex_log ''4'' ''x'' 4, ex_log ''5'' ''x'' 5]"

definition ex_four_metrics :: "MetricDataPoint list" where
  "ex_four_metrics =
     [ex_metric ''1'' ''x'' ''cpu'' 1, ex_metric ''2'' ''y'' ''cpu'' 2,
      ex_metric ''3'' ''x'' ''cpu'' 3, ex_metric ''4'' ''x'' ''mem'' 4]"

text \<open>
  The two-span trace of the specification's scenario: a parentless root span of 500 ms
  and a child of it that ended in error.
\<close>

definition ex_root_span :: Span where
  "ex_root_span =
     \<lparr>span_trace_id = ''t1'', span_id = ''a'', parent_span_id = None,
      span_service_name = ''gateway'', operation_name = ''GET /orders'',
      start_time = 0, end_time = 500000, duration_ms = 500, status = OK\<rparr>"

definition ex_child_span :: Span where
  "ex_child_span =
     \<lparr>span_trace_id = ''t1'', span_id = ''b'', parent_span_id = Some ''a'',
      span_service_name = ''db'', operation_name = ''SELECT'',
      start_time = 100000, end_time = 220000, duration_ms = 120, status = ERROR\<rparr>"

definition ex_window_store :: TelemetryStore where
  "ex_window_store =
     add_metric_calls
       (add_log_calls ex_store
          [ex_log ''1'' ''x'' 5, ex_log ''2'' ''y'' 10, ex_log ''3'' ''x'' 11, ex_log ''4'' ''y'' 4])
       [ex_metric ''1'' ''x'' ''cpu'' 5, ex_metric ''2'' ''x'' ''cpu'' 10,
        ex_metric ''3'' ''x'' ''cpu'' 4, ex_metric ''4'' ''y'' ''cpu'' 11]"

text \<open>
  Three logs with the same timestamp, appended in the order 1, 2, 3: the first and the
  third for service a, the second for service b.
\<close>

definition ex_tie_logs :: "LogEntry list" where
  "ex_tie_logs = [ex_log ''1'' ''a'' 5, ex_log ''2'' ''b'' 5, ex_log ''3'' ''a'' 5]"

text \<open>Traces of one span, named by their id, and a second version of trace A.\<close>

definition ex_trace :: "string \<Rightarrow> Trace" where
  "ex_trace tid = Trace_new tid [ex_root_span\<lparr>span_trace_id := tid\<rparr>]"

definition ex_trace_A2 :: Trace where
  "ex_trace_A2 =
     Trace_new ''A'' [ex_root_span\<lparr>span_trace_id := ''A''\<rparr>,
                      ex_child_span\<lparr>span_trace_id := ''A''\<rparr>]"

definition ex_two_traces :: TelemetryStore where
  "ex_two_traces = add_trace_calls ex_store [ex_trace ''A'', ex_trace ''B'']"

text \<open>
  A store for the retention sweep, with a retention of 24 hours (86400000000 microseconds)
  swept at \<open>ex_now\<close>, so that the cutoff is 100: logs and metrics at, before and after the
  cutoff, a trace that ended before it, a trace with one span ending after it, and a
  trace without spans.
\<close>

definition ex_now :: datetime where
  "ex_now = 86400000100"

definition ex_span :: "string \<Rightarrow> string \<Rightarrow> datetime \<Rightarrow> datetime \<Rightarrow> Span" where
  "ex_span tid sid t0 t1 =
     \<lparr>span_trace_id = tid, span_id = sid, parent_span_id = None,
      span_service_name = ''x'', operation_name = ''op'',
      start_time = t0, end_time = t1, duration_ms = 1, status = OK\<rparr>"

definition ex_sweep_store :: TelemetryStore where
  "ex_sweep_store =
     add_trace_calls
       (add_metric_calls
          (add_log_calls
             (TelemetryStore_init default_settings None None None None)
             [ex_log ''1'' ''x'' 99, ex_log ''2'' ''x'' 100, ex_log ''3'' ''x'' 101,
              ex_log ''4'' ''y'' 50])
          [ex_metric ''1'' ''x'' ''cpu'' 100, ex_metric ''2'' ''x'' ''cpu'' 101])
       [Trace_new ''old'' [ex_span ''old'' ''a'' 10 99, ex_span ''old'' ''b'' 10 20],
        Trace_new ''live'' [ex_span ''live'' ''a'' 10 20, ex_span ''live'' ''b'' 10 100],
        Trace_new ''empty'' []]"

section \<open>Evaluating the examples\<close>

lemmas ex_defs = ex_store_def TelemetryStore_init_def default_settings_def py_or_def
  ex_log_def ex_metric_def timedelta_hours_def

section \<open>Dictionary lemmas\<close>

lemma map_of_dict_set: "map_of (dict_set d k v) = (map_of d)(k \<mapsto> v)"
  by (induction d k v rule: dict_set.induct) auto

lemma dict_get_or_dict_set:
  "dict_get_or (dict_set d k v) k' dflt = (if k' = k then v else dict_get_or d k' dflt)"
  by (simp add: dict_get_or_def map_of_dict_set)

lemma dict_keys_dict_set:
  "dict_keys (dict_set d k v) = (if k \<in> set (dict_keys d) then dict_keys d else dict_keys d @ [k])"
  by (induction d k v rule: dict_set.induct) (auto simp: dict_keys_def)

lemma dict_set_new: "k \<notin> set (dict_keys d) \<Longrightarrow> dict_set d k v = d @ [(k, v)]"
  by (induction d k v rule: dict_set.induct) (auto simp: dict_keys_def)

lemma length_dict_set:
  "length (dict_set d k v) = (if k \<in> set (dict_keys d) then length d else Suc (length d))"
  by (induction d k v rule: dict_set.induct) (auto simp: dict_keys_def)

section \<open>Per-service capacity\<close>

lemma stored_logs_add_log:
  "stored_logs (fst (add_log s entry)) service =
     (if service = log_service_name entry then
        (let xs = stored_logs s service @ [entry]
         in if int (length xs) > max_logs s then tl xs else xs)
      else stored_logs s service)"
  by (auto simp: add_log_def stored_logs_def Let_def dict_get_or_dict_set
           split: list.splits option.splits)

lemma max_logs_add_log: "max_logs (fst (add_log s entry)) = max_logs s"
  by (auto simp: add_log_def Let_def split: list.splits option.splits)

lemma stored_metrics_add_metric:
  "stored_metrics (fst (add_metric s m)) service =
     (if service = metric_service_name m then
        (let xs = stored_metrics s service @ [m]
         in if int (length xs) > max_metrics s then tl xs else xs)
      else stored_metrics s service)"
  by (auto simp: add_metric_def stored_metrics_def Let_def dict_get_or_dict_set
           split: list.splits option.splits)

lemma max_metrics_add_metric: "max_metrics (fst (add_metric s m)) = max_metrics s"
  by (auto simp: add_metric_def Let_def split: list.splits option.splits)

text \<open>
  Dropping the head of a list that is longer than the bound does not change which
  \<open>m\<close> last elements of any extension are kept.
\<close>

lemma drop_tl_window:
  assumes "m < length xs"
  shows "drop (length (tl xs @ ys) - m) (tl xs @ ys) = drop (length (xs @ ys) - m) (xs @ ys)"
proof (cases xs)
  case Nil
  with assms show ?thesis by simp
next
  case (Cons x xs')
  with assms have "length (xs @ ys) - m = Suc (length (xs' @ ys) - m)"
    by simp
  with Cons show ?thesis by simp
qed

lemma suffix_window:
  assumes "0 \<le> (m::int)"
  shows "int (length (drop (length xs - nat m) xs)) = min (int (length xs)) m"
    and "drop (length xs - nat m) xs = drop (length xs - length (drop (length xs - nat m) xs)) xs"
  using assms by (auto simp: min_def)

text \<open>
  From any store whose list for the service respects the bound, a run of appends leaves
  the last \<open>max_logs\<close> elements of the old list followed by the appended entries.
\<close>

lemma stored_logs_add_log_calls:
  "int (length (stored_logs s service)) \<le> max_logs s \<Longrightarrow>
   stored_logs (add_log_calls s ls) service =
     (let xs = stored_logs s service @ filter (\<lambda>l. log_service_name l = service) ls
      in drop (length xs - nat (max_logs s)) xs)"
proof (induction ls arbitrary: s)
  case Nil
  then show ?case by (simp add: add_log_calls_def)
next
  case (Cons l ls)
  let ?s' = "fst (add_log s l)"
  let ?F = "filter (\<lambda>l. log_service_name l = service) ls"
  have step: "add_log_calls s (l # ls) = add_log_calls ?s' ls"
    by (simp add: add_log_calls_def)
  have bound: "int (length (stored_logs ?s' service)) \<le> max_logs ?s'"
    using Cons.prems by (auto simp: stored_logs_add_log max_logs_add_log Let_def)
  have IH: "stored_logs (add_log_calls ?s' ls) service =
      drop (length (stored_logs ?s' service @ ?F) - nat (max_logs s))
        (stored_logs ?s' service @ ?F)"
    using Cons.IH[OF bound] by (simp add: max_logs_add_log Let_def)
  show ?case
  proof (cases "service = log_service_name l")
    case False
    then show ?thesis
      using IH by (simp add: step stored_logs_add_log)
  next
    case True
    let ?xs = "stored_logs s service @ [l]"
    have app: "stored_logs s service @ filter (\<lambda>l. log_service_name l = service) (l # ls)
                 = ?xs @ ?F"
      using True by simp
    show ?thesis
    proof (cases "int (length ?xs) > max_logs s")
      case over: True
      then have m: "nat (max_logs s) < length ?xs"
        by (cases "0 \<le> max_logs s") (simp_all add: nat_less_iff)
      have "stored_logs ?s' service = tl ?xs"
        using True over by (simp add: stored_logs_add_log Let_def)
      then show ?thesis
        using IH drop_tl_window[OF m, of ?F] unfolding step app Let_def by simp
    next
      case False
      then have "stored_logs ?s' service = ?xs"
        using True by (simp add: stored_logs_add_log Let_def)
      then show ?thesis
        using IH unfolding step app Let_def by simp
    qed
  qed
qed

lemma stored_metrics_add_metric_calls:
  "int (length (stored_metrics s service)) \<le> max_metrics s \<Longrightarrow>
   stored_metrics (add_metric_calls s ms) service =
     (let xs = stored_metrics s service @ filter (\<lambda>m. metric_service_name m = service) ms
      in drop (length xs - nat (max_metrics s)) xs)"
proof (induction ms arbitrary: s)
  case Nil
  then show ?case by (simp add: add_metric_calls_def)
next
  case (Cons m ms)
  let ?s' = "fst (add_metric s m)"
  let ?F = "filter (\<lambda>m. metric_service_name m = service) ms"
  have step: "add_metric_calls s (m # ms) = add_metric_calls ?s' ms"
    by (simp add: add_metric_calls_def)
  have bound: "int (length (stored_metrics ?s' service)) \<le> max_metrics ?s'"
    using Cons.prems by (auto simp: stored_metrics_add_metric max_metrics_add_metric Let_def)
  have IH: "stored_metrics (add_metric_calls ?s' ms) service =
      drop (length (stored_metrics ?s' service @ ?F) - nat (max_metrics s))
        (stored_metrics ?s' service @ ?F)"
    using Cons.IH[OF bound] by (simp add: max_metrics_add_metric Let_def)
  show ?case
  proof (cases "service = metric_service_name m")
    case False
    then show ?thesis
      using IH by (simp add: step stored_metrics_add_metric)
  next
    case True
    let ?xs = "stored_metrics s service @ [m]"
    have app: "stored_metrics s service @ filter (\<lambda>m. metric_service_name m = service) (m # ms)
                 = ?xs @ ?F"
      using True by simp
    show ?thesis
    proof (cases "int (length ?xs) > max_metrics s")
      case over: True
      then have m: "nat (max_metrics s) < length ?xs"
        by (cases "0 \<le> max_metrics s") (simp_all add: nat_less_iff)
      have "stored_metrics ?s' service = tl ?xs"
        using True over by (simp add: stored_metrics_add_metric Let_def)
      then show ?thesis
        using IH drop_tl_window[OF m, of ?F] unfolding step app Let_def by simp
    next
      case False
      then have "stored_metrics ?s' service = ?xs"
        using True by (simp add: stored_metrics_add_metric Let_def)
      then show ?thesis
        using IH unfolding step app Let_def by simp
    qed
  qed
qed

text \<open>
  Claim C2. On a store that starts without logs and metrics and whose per-service bounds
  are not negative, after any sequence of \<open>add_log\<close> calls the list stored for a service
  has \<open>min (appended for the service) max_logs\<close> entries and is the suffix of that length
  of the entries appended for the service, in append order; the same holds for
  \<open>add_metric\<close>. In any store, one append leaves the service's list either extended by
  the new entry or extended and without its head (one eviction at most), and leaves the
  lists of the other services as they were.
\<close>

theorem capacity_invariant:
  assumes "logs s = []" and "metrics s = []"
    and "0 \<le> max_logs s" and "0 \<le> max_metrics s"
  shows
    "(let appended = filter (\<lambda>l. log_service_name l = service) ls;
          stored = stored_logs (add_log_calls s ls) service
      in int (length stored) = min (int (length appended)) (max_logs s)
         \<and> stored = drop (length appended - length stored) appended)
   \<and> (let appended = filter (\<lambda>m. metric_service_name m = service) ms;
          stored = stored_metrics (add_metric_calls s ms) service
      in int (length stored) = min (int (length appended)) (max_metrics s)
         \<and> stored = drop (length appended - length stored) appended)
   \<and> (stored_logs (fst (add_log t entry)) (log_service_name entry)
          = stored_logs t (log_service_name entry) @ [entry]
      \<or> stored_logs (fst (add_log t entry)) (log_service_name entry)
          = tl (stored_logs t (log_service_name entry) @ [entry]))
   \<and> (service \<noteq> log_service_name entry \<longrightarrow>
         stored_logs (fst (add_log t entry)) service = stored_logs t service)
   \<and> (stored_metrics (fst (add_metric u metric)) (metric_service_name metric)
          = stored_metrics u (metric_service_name metric) @ [metric]
      \<or> stored_metrics (fst (add_metric u metric)) (metric_service_name metric)
          = tl (stored_metrics u (metric_service_name metric) @ [metric]))
   \<and> (service \<noteq> metric_service_name metric \<longrightarrow>
         stored_metrics (fst (add_metric u metric)) service = stored_metrics u service)"
proof -
  have l0: "int (length (stored_logs s service)) \<le> max_logs s"
    using assms by (simp add: stored_logs_def dict_get_or_def)
  have m0: "int (length (stored_metrics s service)) \<le> max_metrics s"
    using assms by (simp add: stored_metrics_def dict_get_or_def)
  have le: "stored_logs s service = []"
    using assms by (simp add: stored_logs_def dict_get_or_def)
  have me: "stored_metrics s service = []"
    using assms by (simp add: stored_metrics_def dict_get_or_def)
  have A: "let appended = filter (\<lambda>l. log_service_name l = service) ls;
          stored = stored_logs (add_log_calls s ls) service
      in int (length stored) = min (int (length appended)) (max_logs s)
         \<and> stored = drop (length appended - length stored) appended"
    unfolding Let_def stored_logs_add_log_calls[OF l0] le append_Nil
    using suffix_window[OF assms(3)] by blast
  have B: "let appended = filter (\<lambda>m. metric_service_name m = service) ms;
          stored = stored_metrics (add_metric_calls s ms) service
      in int (length stored) = min (int (length appended)) (max_metrics s)
         \<and> stored = drop (length appended - length stored) appended"
    unfolding Let_def stored_metrics_add_metric_calls[OF m0] me append_Nil
    using suffix_window[OF assms(4)] by blast
  have C: "stored_logs (fst (add_log t entry)) (log_service_name entry)
          = stored_logs t (log_service_name entry) @ [entry]
      \<or> stored_logs (fst (add_log t entry)) (log_service_name entry)
          = tl (stored_logs t (log_service_name entry) @ [entry])"
    by (simp add: stored_logs_add_log Let_def)
  have D: "service \<noteq> log_service_name entry \<longrightarrow>
         stored_logs (fst (add_log t entry)) service = stored_logs t service"
    by (simp add: stored_logs_add_log)
  have E: "stored_metrics (fst (add_metric u metric)) (metric_service_name metric)
          = stored_metrics u (metric_service_name metric) @ [metric]
      \<or> stored_metrics (fst (add_metric u metric)) (metric_service_name metric)
          = tl (stored_metrics u (metric_service_name metric) @ [metric])"
    by (simp add: stored_metrics_add_metric Let_def)
  have F: "service \<noteq> metric_service_name metric \<longrightarrow>
         stored_metrics (fst (add_metric u metric)) service = stored_metrics u service"
    by (simp add: stored_metrics_add_metric)
  from A B C D E F show ?thesis by blast
qed

text \<open>
  The scenario of the specification: a store from the constructor with a bound of three
  keeps the last three of five logs appended for one service.
\<close>

theorem capacity_invariant_witness:
  "logs ex_store = [] \<and> metrics ex_store = []
   \<and> 0 \<le> max_logs ex_store \<and> 0 \<le> max_metrics ex_store
   \<and> ''x'' \<noteq> log_service_name (ex_log ''9'' ''y'' 9)
   \<and> ''x'' \<noteq> metric_service_name (ex_metric ''9'' ''y'' ''cpu'' 9)
   \<and> int (length (stored_logs (add_log_calls ex_store ex_five_logs) ''x'')) = 3
   \<and> stored_logs (add_log_calls ex_store ex_five_logs) ''x''
       = [ex_log ''3'' ''x'' 3, ex_log ''4'' ''x'' 4, ex_log ''5'' ''x'' 5]
   \<and> stored_metrics (add_metric_calls ex_store ex_four_metrics) ''x''
       = [ex_metric ''1'' ''x'' ''cpu'' 1, ex_metric ''3'' ''x'' ''cpu'' 3,
          ex_metric ''4'' ''x'' ''mem'' 4]
   \<and> stored_logs (fst (add_log ex_store (ex_log ''9'' ''y'' 9))) ''x'' = stored_logs ex_store ''x''
   \<and> stored_metrics (fst (add_metric ex_store (ex_metric ''9'' ''y'' ''cpu'' 9))) ''x''
       = stored_metrics ex_store ''x''"
proof -
  have h1: "logs ex_store = []" and h2: "metrics ex_store = []"
    and h3: "0 \<le> max_logs ex_store" and h4: "0 \<le> max_metrics ex_store"
    by (simp_all add: ex_defs)
  have h5: "''x'' \<noteq> log_service_name (ex_log ''9'' ''y'' 9)"
    and h6: "''x'' \<noteq> metric_service_name (ex_metric ''9'' ''y'' ''cpu'' 9)"
    by (simp_all add: ex_defs)
  have f1: "filter (\<lambda>l. log_service_name l = ''x'') ex_five_logs = ex_five_logs"
    by (simp add: ex_five_logs_def ex_defs)
  have f2: "filter (\<lambda>m. metric_service_name m = ''x'') ex_four_metrics
        = [ex_metric ''1'' ''x'' ''cpu'' 1, ex_metric ''3'' ''x'' ''cpu'' 3,
          ex_metric ''4'' ''x'' ''mem'' 4]"
    by (simp add: ex_four_metrics_def ex_defs)
  have m3: "max_logs ex_store = 3" "max_metrics ex_store = 3" by (simp_all add: ex_defs)
  note inst = capacity_invariant[OF h1 h2 h3 h4, where service = "''x''" and ls = ex_five_logs
      and ms = ex_four_metrics and t = ex_store and entry = "ex_log ''9'' ''y'' 9"
      and u = ex_store and metric = "ex_metric ''9'' ''y'' ''cpu'' 9"]
  have len5: "length ex_five_logs = 5" by (simp add: ex_five_logs_def)
  from inst[THEN conjunct1]
  have A: "int (length (stored_logs (add_log_calls ex_store ex_five_logs) ''x''))
        = min (int (length ex_five_logs)) 3
      \<and> stored_logs (add_log_calls ex_store ex_five_logs) ''x''
       = drop (length ex_five_logs
                - length (stored_logs (add_log_calls ex_store ex_five_logs) ''x'')) ex_five_logs"
    unfolding Let_def f1 m3 .
  from A[THEN conjunct1]
  have L3: "length (stored_logs (add_log_calls ex_store ex_five_logs) ''x'') = 3"
    by (simp add: len5)
  then have L: "int (length (stored_logs (add_log_calls ex_store ex_five_logs) ''x'')) = 3"
    by simp
  have "drop (length ex_five_logs
                - length (stored_logs (add_log_calls ex_store ex_five_logs) ''x'')) ex_five_logs
          = [ex_log ''3'' ''x'' 3, ex_log ''4'' ''x'' 4, ex_log ''5'' ''x'' 5]"
    unfolding L3 by (simp add: ex_five_logs_def)
  with A[THEN conjunct2]
  have Lv: "stored_logs (add_log_calls ex_store ex_five_logs) ''x''
       = [ex_log ''3'' ''x'' 3, ex_log ''4'' ''x'' 4, ex_log ''5'' ''x'' 5]"
    by (rule trans)
  from inst[THEN conjunct2, THEN conjunct1]
  have B: "int (length (stored_metrics (add_metric_calls ex_store ex_four_metrics) ''x''))
        = min (int (length [ex_metric ''1'' ''x'' ''cpu'' 1, ex_metric ''3'' ''x'' ''cpu'' 3,
           ex_metric ''4'' ''x'' ''mem'' 4])) 3
      \<and> stored_metrics (add_metric_calls ex_store ex_four_metrics) ''x''
       = drop (length [ex_metric ''1'' ''x'' ''cpu'' 1, ex_metric ''3'' ''x'' ''cpu'' 3,
           ex_metric ''4'' ''x'' ''mem'' 4]
               - length (stored_metrics (add_metric_calls ex_store ex_four_metrics) ''x''))
          [ex_metric ''1'' ''x'' ''cpu'' 1, ex_metric ''3'' ''x'' ''cpu'' 3,
           ex_metric ''4'' ''x'' ''mem'' 4]"
    unfolding Let_def f2 m3 .
  from B[THEN conjunct1]
  have M3: "length (stored_metrics (add_metric_calls ex_store ex_four_metrics) ''x'') = 3"
    by simp
  have "drop (length [ex_metric ''1'' ''x'' ''cpu'' 1, ex_metric ''3'' ''x'' ''cpu'' 3,
           ex_metric ''4'' ''x'' ''mem'' 4]
               - length (stored_metrics (add_metric_calls ex_store ex_four_metrics) ''x''))
          [ex_metric ''1'' ''x'' ''cpu'' 1, ex_metric ''3'' ''x'' ''cpu'' 3,
           ex_metric ''4'' ''x'' ''mem'' 4]
        = [ex_metric ''1'' ''x'' ''cpu'' 1, ex_metric ''3'' ''x'' ''cpu'' 3,
           ex_metric ''4'' ''x'' ''mem'' 4]"
    unfolding M3 by simp
  with B[THEN conjunct2]
  have Mv: "stored_metrics (add_metric_calls ex_store ex_four_metrics) ''x''
       = [ex_metric ''1'' ''x'' ''cpu'' 1, ex_metric ''3'' ''x'' ''cpu'' 3,
          ex_metric ''4'' ''x'' ''mem'' 4]"
    by (rule trans)
  from inst h5 h6 have S: "stored_logs (fst (add_log ex_store (ex_log ''9'' ''y'' 9))) ''x'' = stored_logs ex_store ''x''"
    "stored_metrics (fst (add_metric ex_store (ex_metric ''9'' ''y'' ''cpu'' 9))) ''x''
       = stored_metrics ex_store ''x''"
    by blast+
  from h1 h2 h3 h4 h5 h6 L Lv Mv S show ?thesis by blast
qed

section \<open>Derived fields of a trace\<close>

text \<open>The first parentless span is the head of the list of parentless spans.\<close>

lemma find_filter_hd:
  "find P xs = (case filter P xs of [] \<Rightarrow> None | x # _ \<Rightarrow> Some x)"
  by (induction xs) auto

text \<open>
  The constructor in general: \<open>has_error\<close> is always recomputed on a non-empty span list,
  while \<open>root_service\<close> and \<open>total_duration_ms\<close> keep the values passed in when no span is
  parentless.
\<close>

lemma Trace_init_derived:
  assumes "sps \<noteq> []"
  shows "root_service (Trace_init tid sps rs td he) =
           (case find (\<lambda>sp. parent_span_id sp = None) sps of
              None \<Rightarrow> rs | Some sp \<Rightarrow> Some (span_service_name sp))"
    and "total_duration_ms (Trace_init tid sps rs td he) =
           (case filter (\<lambda>sp. parent_span_id sp = None) sps of
              [] \<Rightarrow> td | r # _ \<Rightarrow> duration_ms r)"
    and "has_error (Trace_init tid sps rs td he) = (\<exists>sp \<in> set sps. status sp = ERROR)"
    and "trace_id (Trace_init tid sps rs td he) = tid"
    and "spans (Trace_init tid sps rs td he) = sps"
  using assms
  by (auto simp: Trace_init_def model_post_init_def Let_def list_ex_iff
           split: option.splits list.splits)

text \<open>
  Claim C7. A trace constructed from a trace id and a non-empty span list has as root
  service the service of the first span without a parent, as total duration the duration
  of the first parentless span and 0 when there is none, and the error flag set exactly
  when some span has status error. For a parentless root of 500 ms followed by a child in
  error this gives the error flag, the root's service and 500.
\<close>

theorem trace_derived_fields:
  "(sps \<noteq> [] \<longrightarrow>
      root_service (Trace_new tid sps)
        = map_option span_service_name (find (\<lambda>sp. parent_span_id sp = None) sps)
    \<and> total_duration_ms (Trace_new tid sps)
        = (case filter (\<lambda>sp. parent_span_id sp = None) sps of
             [] \<Rightarrow> 0 | r # _ \<Rightarrow> duration_ms r)
    \<and> has_error (Trace_new tid sps) = (\<exists>sp \<in> set sps. status sp = ERROR)
    \<and> trace_id (Trace_new tid sps) = tid
    \<and> spans (Trace_new tid sps) = sps)
   \<and> (parent_span_id root_sp = None \<and> duration_ms root_sp = 500
        \<and> parent_span_id child_sp = Some (span_id root_sp) \<and> status child_sp = ERROR \<longrightarrow>
      has_error (Trace_new tid [root_sp, child_sp])
    \<and> root_service (Trace_new tid [root_sp, child_sp]) = Some (span_service_name root_sp)
    \<and> total_duration_ms (Trace_new tid [root_sp, child_sp]) = 500)"
proof -
  have general: "root_service (Trace_new tid sps)
        = map_option span_service_name (find (\<lambda>sp. parent_span_id sp = None) sps)
    \<and> total_duration_ms (Trace_new tid sps)
        = (case filter (\<lambda>sp. parent_span_id sp = None) sps of
             [] \<Rightarrow> 0 | r # _ \<Rightarrow> duration_ms r)
    \<and> has_error (Trace_new tid sps) = (\<exists>sp \<in> set sps. status sp = ERROR)
    \<and> trace_id (Trace_new tid sps) = tid
    \<and> spans (Trace_new tid sps) = sps" if "sps \<noteq> []" for sps
    using Trace_init_derived[OF that, of tid None 0 False]
    by (simp add: Trace_new_def split: option.splits)
  have scenario: "has_error (Trace_new tid [root_sp, child_sp])
    \<and> root_service (Trace_new tid [root_sp, child_sp]) = Some (span_service_name root_sp)
    \<and> total_duration_ms (Trace_new tid [root_sp, child_sp]) = 500"
    if "parent_span_id root_sp = None" "duration_ms root_sp = 500"
       "parent_span_id child_sp = Some (span_id root_sp)" "status child_sp = ERROR"
    using general[of "[root_sp, child_sp]"] that by simp
  from general scenario show ?thesis by blast
qed

theorem trace_derived_fields_witness:
  "[ex_root_span, ex_child_span] \<noteq> []
   \<and> parent_span_id ex_root_span = None \<and> duration_ms ex_root_span = 500
   \<and> parent_span_id ex_child_span = Some (span_id ex_root_span) \<and> status ex_child_span = ERROR
   \<and> has_error (Trace_new ''t1'' [ex_root_span, ex_child_span])
   \<and> root_service (Trace_new ''t1'' [ex_root_span, ex_child_span]) = Some ''gateway''
   \<and> total_duration_ms (Trace_new ''t1'' [ex_root_span, ex_child_span]) = 500"
proof -
  have h: "parent_span_id ex_root_span = None \<and> duration_ms ex_root_span = 500
        \<and> parent_span_id ex_child_span = Some (span_id ex_root_span)
        \<and> status ex_child_span = ERROR"
    by (simp add: ex_root_span_def ex_child_span_def)
  have n: "span_service_name ex_root_span = ''gateway''"
    by (simp add: ex_root_span_def)
  from trace_derived_fields[of "[ex_root_span, ex_child_span]" "''t1''" ex_root_span ex_child_span] h
  show ?thesis unfolding n by blast
qed

section \<open>Clearing the store\<close>

text \<open>
  Claim C8. \<open>clear\<close> empties the three collections, both by-id indexes and the service
  registry and leaves the three ingested counters as they were, so the statistics of a
  cleared store show the old counters beside zero stored counts and zero services.
\<close>

theorem clear_keeps_counters:
  "logs (clear s) = [] \<and> metrics (clear s) = [] \<and> traces (clear s) = []
   \<and> logs_by_id (clear s) = Map.empty \<and> metrics_by_id (clear s) = Map.empty
   \<and> services (clear s) = {}
   \<and> logs_ingested (clear s) = logs_ingested s
   \<and> metrics_ingested (clear s) = metrics_ingested s
   \<and> traces_ingested (clear s) = traces_ingested s
   \<and> get_stats (clear s) =
       \<lparr>stat_logs_ingested = logs_ingested s,
        stat_metrics_ingested = metrics_ingested s,
        stat_traces_ingested = traces_ingested s,
        services_count = 0, logs_stored = 0, metrics_stored = 0, traces_stored = 0\<rparr>"
  by (simp add: clear_def get_stats_def)

section \<open>Empty filter lists\<close>

text \<open>
  Claim C9. An empty list passed as a filter of a window query is no filter: an empty
  \<open>services\<close> list scans every service of the store and an empty \<open>levels\<close> or
  \<open>metric_names\<close> list keeps every entry, as \<open>None\<close> does.
\<close>

theorem empty_filter_is_no_filter:
  "get_logs_in_window s start endt (Some []) levels = get_logs_in_window s start endt None levels
   \<and> get_logs_in_window s start endt services_arg (Some [])
       = get_logs_in_window s start endt services_arg None
   \<and> get_metrics_in_window s start endt (Some []) names
       = get_metrics_in_window s start endt None names
   \<and> get_metrics_in_window s start endt services_arg (Some [])
       = get_metrics_in_window s start endt services_arg None
   \<and> scan_logs s start endt (Some []) (Some [])
       = concat (map (\<lambda>service.
           filter (\<lambda>entry. start \<le> log_timestamp entry \<and> log_timestamp entry \<le> endt)
             (stored_logs s service)) (dict_keys (logs s)))
   \<and> scan_metrics s start endt (Some []) (Some [])
       = concat (map (\<lambda>service.
           filter (\<lambda>m. start \<le> metric_timestamp m \<and> metric_timestamp m \<le> endt)
             (stored_metrics s service)) (dict_keys (metrics s)))"
  by (simp add: get_logs_in_window_def get_metrics_in_window_def scan_logs_def
        scan_metrics_def list_or_def truthy_def stored_logs_def stored_metrics_def)

section \<open>Constructor arguments\<close>

text \<open>
  Claim C10. A constructor argument given as 0 is replaced by the configured default, as
  an omitted one is; so a zero retention horizon or bound in a constructed store can only
  come from the configuration: when the configured default is not zero, no value of the
  argument gives zero.
\<close>

theorem zero_argument_takes_default:
  "retention (TelemetryStore_init cfg (Some 0) ml mm mt)
      = timedelta_hours (telemetry_retention_hours cfg)
   \<and> max_logs (TelemetryStore_init cfg rh (Some 0) mm mt) = max_logs_per_service cfg
   \<and> max_metrics (TelemetryStore_init cfg rh ml (Some 0) mt) = max_metrics_per_service cfg
   \<and> max_traces (TelemetryStore_init cfg rh ml mm (Some 0)) = cfg_max_traces cfg
   \<and> TelemetryStore_init cfg (Some 0) (Some 0) (Some 0) (Some 0)
      = TelemetryStore_init cfg None None None None
   \<and> (telemetry_retention_hours cfg \<noteq> 0 \<longrightarrow>
        retention (TelemetryStore_init cfg rh ml mm mt) \<noteq> 0)
   \<and> (max_logs_per_service cfg \<noteq> 0 \<longrightarrow> max_logs (TelemetryStore_init cfg rh ml mm mt) \<noteq> 0)
   \<and> (max_metrics_per_service cfg \<noteq> 0 \<longrightarrow>
        max_metrics (TelemetryStore_init cfg rh ml mm mt) \<noteq> 0)
   \<and> (cfg_max_traces cfg \<noteq> 0 \<longrightarrow> max_traces (TelemetryStore_init cfg rh ml mm mt) \<noteq> 0)"
  by (auto simp: TelemetryStore_init_def py_or_def timedelta_hours_def split: option.splits)

theorem zero_argument_takes_default_witness:
  "telemetry_retention_hours default_settings \<noteq> 0
   \<and> max_logs_per_service default_settings \<noteq> 0
   \<and> max_metrics_per_service default_settings \<noteq> 0
   \<and> cfg_max_traces default_settings \<noteq> 0
   \<and> retention (TelemetryStore_init default_settings (Some 0) (Some 0) (Some 0) (Some 0))
        = 86400000000
   \<and> max_logs (TelemetryStore_init default_settings (Some 0) (Some 0) (Some 0) (Some 0)) = 100000
   \<and> max_metrics (TelemetryStore_init default_settings (Some 0) (Some 0) (Some 0) (Some 0))
        = 100000
   \<and> max_traces (TelemetryStore_init default_settings (Some 0) (Some 0) (Some 0) (Some 0)) = 50000
   \<and> retention (TelemetryStore_init default_settings (Some 0) (Some 0) (Some 0) (Some 0)) \<noteq> 0
   \<and> max_logs (TelemetryStore_init default_settings (Some 0) (Some 0) (Some 0) (Some 0)) \<noteq> 0
   \<and> max_metrics (TelemetryStore_init default_settings (Some 0) (Some 0) (Some 0) (Some 0)) \<noteq> 0
   \<and> max_traces (TelemetryStore_init default_settings (Some 0) (Some 0) (Some 0) (Some 0)) \<noteq> 0"
proof -
  have h: "telemetry_retention_hours default_settings \<noteq> 0"
    "max_logs_per_service default_settings \<noteq> 0"
    "max_metrics_per_service default_settings \<noteq> 0"
    "cfg_max_traces default_settings \<noteq> 0"
    by (simp_all add: default_settings_def)
  have v: "timedelta_hours (telemetry_retention_hours default_settings) = 86400000000"
    "max_logs_per_service default_settings = 100000"
    "max_metrics_per_service default_settings = 100000"
    "cfg_max_traces default_settings = 50000"
    by (simp_all add: default_settings_def timedelta_hours_def)
  from zero_argument_takes_default[of default_settings "Some 0" "Some 0" "Some 0" "Some 0"] h
  show ?thesis unfolding v by blast
qed

section \<open>Time windows\<close>

lemma stored_logs_outside_keys:
  "service \<notin> set (dict_keys (logs s)) \<Longrightarrow> stored_logs s service = []"
  by (simp add: stored_logs_def dict_get_or_def dict_keys_def map_of_eq_None_iff[THEN iffD2])

lemma stored_metrics_outside_keys:
  "service \<notin> set (dict_keys (metrics s)) \<Longrightarrow> stored_metrics s service = []"
  by (simp add: stored_metrics_def dict_get_or_def dict_keys_def map_of_eq_None_iff[THEN iffD2])

lemma set_scan_logs:
  "set (scan_logs s start endt sv lv) =
     {entry. (\<exists>service \<in> set (list_or sv (dict_keys (logs s))). entry \<in> set (stored_logs s service))
        \<and> start \<le> log_timestamp entry \<and> log_timestamp entry \<le> endt
        \<and> \<not> (truthy lv \<and> not_in_filter lv (level entry))}"
  by (auto simp: scan_logs_def stored_logs_def)

lemma set_scan_metrics:
  "set (scan_metrics s start endt sv ns) =
     {m. (\<exists>service \<in> set (list_or sv (dict_keys (metrics s))). m \<in> set (stored_metrics s service))
        \<and> start \<le> metric_timestamp m \<and> metric_timestamp m \<le> endt
        \<and> \<not> (truthy ns \<and> not_in_filter ns (metric_name m))}"
  by (auto simp: scan_metrics_def stored_metrics_def)

lemma in_logs_window_iff:
  "entry \<in> set (get_logs_in_window s start endt sv lv) \<longleftrightarrow>
     (\<exists>service \<in> set (list_or sv (dict_keys (logs s))). entry \<in> set (stored_logs s service))
     \<and> start \<le> log_timestamp entry \<and> log_timestamp entry \<le> endt
     \<and> \<not> (truthy lv \<and> not_in_filter lv (level entry))"
  by (simp add: get_logs_in_window_def set_scan_logs)

lemma in_metrics_window_iff:
  "m \<in> set (get_metrics_in_window s start endt sv ns) \<longleftrightarrow>
     (\<exists>service \<in> set (list_or sv (dict_keys (metrics s))). m \<in> set (stored_metrics s service))
     \<and> start \<le> metric_timestamp m \<and> metric_timestamp m \<le> endt
     \<and> \<not> (truthy ns \<and> not_in_filter ns (metric_name m))"
  by (simp add: get_metrics_in_window_def set_scan_metrics)

lemma in_metric_series_iff:
  "m \<in> set (get_metric_series s service name start endt) \<longleftrightarrow>
     m \<in> set (stored_metrics s service) \<and> metric_name m = name
     \<and> start \<le> metric_timestamp m \<and> metric_timestamp m \<le> endt"
  by (auto simp: get_metric_series_def stored_metrics_def)

lemma in_logs_window_all:
  "entry \<in> set (get_logs_in_window s start endt None None) \<longleftrightarrow>
     (\<exists>service. entry \<in> set (stored_logs s service))
     \<and> start \<le> log_timestamp entry \<and> log_timestamp entry \<le> endt"
proof -
  have "(\<exists>service \<in> set (dict_keys (logs s)). entry \<in> set (stored_logs s service))
          \<longleftrightarrow> (\<exists>service. entry \<in> set (stored_logs s service))"
    using stored_logs_outside_keys[of _ s] by fastforce
  then show ?thesis
    by (simp add: in_logs_window_iff list_or_def truthy_def)
qed

lemma in_metrics_window_all:
  "m \<in> set (get_metrics_in_window s start endt None None) \<longleftrightarrow>
     (\<exists>service. m \<in> set (stored_metrics s service))
     \<and> start \<le> metric_timestamp m \<and> metric_timestamp m \<le> endt"
proof -
  have "(\<exists>service \<in> set (dict_keys (metrics s)). m \<in> set (stored_metrics s service))
          \<longleftrightarrow> (\<exists>service. m \<in> set (stored_metrics s service))"
    using stored_metrics_outside_keys[of _ s] by fastforce
  then show ?thesis
    by (simp add: in_metrics_window_iff list_or_def truthy_def)
qed

text \<open>
  Claim C6. The three window queries keep exactly the scanned entries whose timestamp
  \<open>t\<close> satisfies \<open>start \<le> t \<le> end\<close> (and that pass the name or level filter): a stored
  entry at \<open>start\<close> or at \<open>end\<close> of a window is returned, and no entry before \<open>start\<close> or
  after \<open>end\<close> is.
\<close>

theorem window_bounds_inclusive:
  "(entry \<in> set (get_logs_in_window s start endt sv lv) \<longleftrightarrow>
      (\<exists>service \<in> set (list_or sv (dict_keys (logs s))). entry \<in> set (stored_logs s service))
      \<and> start \<le> log_timestamp entry \<and> log_timestamp entry \<le> endt
      \<and> \<not> (truthy lv \<and> not_in_filter lv (level entry)))
   \<and> (m \<in> set (get_metrics_in_window s start endt sv ns) \<longleftrightarrow>
      (\<exists>service \<in> set (list_or sv (dict_keys (metrics s))). m \<in> set (stored_metrics s service))
      \<and> start \<le> metric_timestamp m \<and> metric_timestamp m \<le> endt
      \<and> \<not> (truthy ns \<and> not_in_filter ns (metric_name m)))
   \<and> (m \<in> set (get_metric_series s service name start endt) \<longleftrightarrow>
      m \<in> set (stored_metrics s service) \<and> metric_name m = name
      \<and> start \<le> metric_timestamp m \<and> metric_timestamp m \<le> endt)
   \<and> (e_in \<in> set (stored_logs s service) \<and> start \<le> endt
        \<and> (log_timestamp e_in = start \<or> log_timestamp e_in = endt) \<longrightarrow>
      e_in \<in> set (get_logs_in_window s start endt None None))
   \<and> (log_timestamp e_out < start \<or> endt < log_timestamp e_out \<longrightarrow>
      e_out \<notin> set (get_logs_in_window s start endt sv lv))
   \<and> (m_in \<in> set (stored_metrics s service) \<and> start \<le> endt
        \<and> (metric_timestamp m_in = start \<or> metric_timestamp m_in = endt) \<longrightarrow>
      m_in \<in> set (get_metrics_in_window s start endt None None)
      \<and> m_in \<in> set (get_metric_series s service (metric_name m_in) start endt))
   \<and> (metric_timestamp m_out < start \<or> endt < metric_timestamp m_out \<longrightarrow>
      m_out \<notin> set (get_metrics_in_window s start endt sv ns)
      \<and> m_out \<notin> set (get_metric_series s service name start endt))"
proof -
  have A: "e_in \<in> set (stored_logs s service) \<and> start \<le> endt
        \<and> (log_timestamp e_in = start \<or> log_timestamp e_in = endt) \<longrightarrow>
      e_in \<in> set (get_logs_in_window s start endt None None)"
    unfolding in_logs_window_all by auto
  have B: "log_timestamp e_out < start \<or> endt < log_timestamp e_out \<longrightarrow>
      e_out \<notin> set (get_logs_in_window s start endt sv lv)"
    unfolding in_logs_window_iff by auto
  have C: "m_in \<in> set (stored_metrics s service) \<and> start \<le> endt
        \<and> (metric_timestamp m_in = start \<or> metric_timestamp m_in = endt) \<longrightarrow>
      m_in \<in> set (get_metrics_in_window s start endt None None)
      \<and> m_in \<in> set (get_metric_series s service (metric_name m_in) start endt)"
    unfolding in_metrics_window_all in_metric_series_iff by auto
  have D: "metric_timestamp m_out < start \<or> endt < metric_timestamp m_out \<longrightarrow>
      m_out \<notin> set (get_metrics_in_window s start endt sv ns)
      \<and> m_out \<notin> set (get_metric_series s service name start endt)"
    unfolding in_metrics_window_iff in_metric_series_iff by auto
  from in_logs_window_iff[of entry s start endt sv lv]
       in_metrics_window_iff[of m s start endt sv ns]
       in_metric_series_iff[of m s service name start endt] A B C D
  show ?thesis by blast
qed

lemma ex_window_store_logs:
  "logs ex_window_store =
     [(''x'', [ex_log ''1'' ''x'' 5, ex_log ''3'' ''x'' 11]),
      (''y'', [ex_log ''2'' ''y'' 10, ex_log ''4'' ''y'' 4])]"
  by (simp add: ex_window_store_def add_metric_calls_def add_metric_def add_log_calls_def
        add_log_def stored_logs_def stored_metrics_def dict_get_or_def Let_def ex_defs)

lemma ex_window_store_metrics:
  "metrics ex_window_store =
     [(''x'', [ex_metric ''1'' ''x'' ''cpu'' 5, ex_metric ''2'' ''x'' ''cpu'' 10,
               ex_metric ''3'' ''x'' ''cpu'' 4]),
      (''y'', [ex_metric ''4'' ''y'' ''cpu'' 11])]"
  by (simp add: ex_window_store_def add_metric_calls_def add_metric_def add_log_calls_def
        add_log_def stored_logs_def stored_metrics_def dict_get_or_def Let_def ex_defs)

theorem window_bounds_inclusive_witness:
  "ex_log ''1'' ''x'' 5 \<in> set (stored_logs ex_window_store ''x'')
   \<and> (5::int) \<le> 10 \<and> log_timestamp (ex_log ''1'' ''x'' 5) = 5
   \<and> ex_log ''1'' ''x'' 5 \<in> set (get_logs_in_window ex_window_store 5 10 None None)
   \<and> log_timestamp (ex_log ''3'' ''x'' 11) > 10
   \<and> ex_log ''3'' ''x'' 11 \<notin> set (get_logs_in_window ex_window_store 5 10 None None)
   \<and> ex_metric ''2'' ''x'' ''cpu'' 10 \<in> set (stored_metrics ex_window_store ''x'')
   \<and> metric_timestamp (ex_metric ''2'' ''x'' ''cpu'' 10) = 10
   \<and> ex_metric ''2'' ''x'' ''cpu'' 10 \<in> set (get_metrics_in_window ex_window_store 5 10 None None)
   \<and> ex_metric ''2'' ''x'' ''cpu'' 10 \<in> set (get_metric_series ex_window_store ''x'' ''cpu'' 5 10)
   \<and> metric_timestamp (ex_metric ''3'' ''x'' ''cpu'' 4) < 5
   \<and> ex_metric ''3'' ''x'' ''cpu'' 4 \<notin> set (get_metrics_in_window ex_window_store 5 10 None None)
   \<and> ex_metric ''3'' ''x'' ''cpu'' 4 \<notin> set (get_metric_series ex_window_store ''x'' ''cpu'' 5 10)"
proof -
  have h1: "ex_log ''1'' ''x'' 5 \<in> set (stored_logs ex_window_store ''x'')"
    by (simp add: stored_logs_def dict_get_or_def ex_window_store_logs)
  have h2: "log_timestamp (ex_log ''1'' ''x'' 5) = 5" "log_timestamp (ex_log ''3'' ''x'' 11) > 10"
    by (simp_all add: ex_log_def)
  have h3: "ex_metric ''2'' ''x'' ''cpu'' 10 \<in> set (stored_metrics ex_window_store ''x'')"
    by (simp add: stored_metrics_def dict_get_or_def ex_window_store_metrics)
  have h4: "metric_timestamp (ex_metric ''2'' ''x'' ''cpu'' 10) = 10"
    "metric_timestamp (ex_metric ''3'' ''x'' ''cpu'' 4) < 5"
    "metric_name (ex_metric ''2'' ''x'' ''cpu'' 10) = ''cpu''"
    by (simp_all add: ex_metric_def)
  have h5: "(5::int) \<le> 10" by simp
  from window_bounds_inclusive[where s = ex_window_store and start = 5 and endt = 10
      and sv = None and lv = None and ns = None and service = "''x''" and name = "''cpu''"
      and e_in = "ex_log ''1'' ''x'' 5" and e_out = "ex_log ''3'' ''x'' 11"
      and m_in = "ex_metric ''2'' ''x'' ''cpu'' 10" and m_out = "ex_metric ''3'' ''x'' ''cpu'' 4"]
    h1 h2 h3 h4 h5
  show ?thesis by metis
qed

section \<open>Order of a window's result\<close>

lemma dict_keys_add_log:
  "dict_keys (logs (fst (add_log s entry))) =
     (if log_service_name entry \<in> set (dict_keys (logs s)) then dict_keys (logs s)
      else dict_keys (logs s) @ [log_service_name entry])"
  by (auto simp: add_log_def Let_def stored_logs_def dict_get_or_dict_set dict_keys_dict_set
           split: list.splits option.splits)

lemma add_log_calls_Cons:
  "add_log_calls s (l # ls) = add_log_calls (fst (add_log s l)) ls"
  by (simp add: add_log_calls_def)

text \<open>
  Two invariants of the log table: its keys are distinct, and the list kept under a key
  holds entries of that service only.
\<close>

lemma add_log_calls_invariants:
  assumes "distinct (dict_keys (logs s))"
    and "\<forall>k. \<forall>e \<in> set (stored_logs s k). log_service_name e = k"
  shows "distinct (dict_keys (logs (add_log_calls s ls)))
       \<and> (\<forall>k. \<forall>e \<in> set (stored_logs (add_log_calls s ls) k). log_service_name e = k)"
  using assms
proof (induction ls arbitrary: s)
  case Nil
  then show ?case by (simp add: add_log_calls_def)
next
  case (Cons l ls)
  have d: "distinct (dict_keys (logs (fst (add_log s l))))"
    using Cons.prems(1) by (simp add: dict_keys_add_log)
  have sub: "e \<in> set (stored_logs s k) \<or> (k = log_service_name l \<and> e = l)"
    if "e \<in> set (stored_logs (fst (add_log s l)) k)" for k e
  proof (cases "k = log_service_name l")
    case False
    with that show ?thesis by (simp add: stored_logs_add_log)
  next
    case True
    from that have "e \<in> set (stored_logs s k @ [l])"
      using list.set_sel(2)[of "stored_logs s k @ [l]" e]
      by (simp add: stored_logs_add_log Let_def True split: if_splits)
    with True show ?thesis by auto
  qed
  have "\<forall>k. \<forall>e \<in> set (stored_logs (fst (add_log s l)) k). log_service_name e = k"
  proof (intro allI ballI)
    fix k e
    assume "e \<in> set (stored_logs (fst (add_log s l)) k)"
    from sub[OF this] Cons.prems(2) show "log_service_name e = k" by blast
  qed
  from Cons.IH[OF d this] show ?case
    by (simp add: add_log_calls_Cons)
qed

lemma stored_logs_suffix:
  "\<exists>n. stored_logs (add_log_calls s ls) k
         = drop n (stored_logs s k @ filter (\<lambda>e. log_service_name e = k) ls)"
proof (induction ls arbitrary: s)
  case Nil
  have "stored_logs s k = drop 0 (stored_logs s k)" by simp
  then show ?case unfolding add_log_calls_def by (auto intro: exI[of _ 0])
next
  case (Cons l ls)
  let ?s' = "fst (add_log s l)"
  let ?F = "filter (\<lambda>e. log_service_name e = k) ls"
  from Cons.IH[of ?s'] obtain n where
    n: "stored_logs (add_log_calls ?s' ls) k = drop n (stored_logs ?s' k @ ?F)"
    by blast
  have "k \<noteq> log_service_name l
      \<or> (k = log_service_name l \<and> stored_logs ?s' k = stored_logs s k @ [l])
      \<or> (k = log_service_name l \<and> stored_logs ?s' k = tl (stored_logs s k @ [l]))"
    by (simp add: stored_logs_add_log Let_def)
  then consider (other) "k \<noteq> log_service_name l"
    | (app) "k = log_service_name l" "stored_logs ?s' k = stored_logs s k @ [l]"
    | (evict) "k = log_service_name l" "stored_logs ?s' k = tl (stored_logs s k @ [l])"
    by blast
  then show ?case
  proof cases
    case other
    then show ?thesis
      using n by (auto simp: add_log_calls_Cons stored_logs_add_log)
  next
    case app
    then show ?thesis
      using n by (auto simp: add_log_calls_Cons)
  next
    case evict
    have "tl (stored_logs s k @ [l]) @ ?F = drop 1 ((stored_logs s k @ [l]) @ ?F)"
      by (cases "stored_logs s k") simp_all
    with n evict(2) have "stored_logs (add_log_calls ?s' ls) k
                 = drop n (drop 1 ((stored_logs s k @ [l]) @ ?F))"
      by (simp only:)
    then have "stored_logs (add_log_calls ?s' ls) k
                 = drop (n + 1) ((stored_logs s k @ [l]) @ ?F)"
      by (simp only: drop_drop)
    moreover have "(stored_logs s k @ [l]) @ ?F
                 = stored_logs s k @ filter (\<lambda>e. log_service_name e = k) (l # ls)"
      using evict(1) by simp
    ultimately have "stored_logs (add_log_calls s (l # ls)) k
                 = drop (n + 1) (stored_logs s k @ filter (\<lambda>e. log_service_name e = k) (l # ls))"
      by (simp only: add_log_calls_Cons)
    then show ?thesis by (rule exI)
  qed
qed

lemma drop_suffix_canon: "xs = drop n ys \<Longrightarrow> xs = drop (length ys - length xs) ys"
  by (cases "n \<le> length ys") auto

lemma filter_concat_one_key:
  assumes "distinct ks" and "\<forall>k. \<forall>e \<in> set (get k). key_of e = k"
  shows "filter (\<lambda>e. P e \<and> key_of e = k0) (concat (map (\<lambda>k. filter Q (get k)) ks))
           = (if k0 \<in> set ks then filter P (filter Q (get k0)) else [])"
  using assms(1)
proof (induction ks)
  case Nil
  then show ?case by simp
next
  case (Cons k ks)
  let ?R = "\<lambda>e. P e \<and> key_of e = k0"
  let ?f = "\<lambda>k. filter Q (get k)"
  have here: "filter ?R (?f k) = (if k = k0 then filter P (?f k0) else [])"
  proof (cases "k = k0")
    case True
    have "filter ?R (?f k0) = filter P (?f k0)"
      by (rule filter_cong) (use assms(2) in auto)
    with True show ?thesis by simp
  next
    case False
    have "filter ?R (?f k) = []"
      unfolding filter_empty_conv using assms(2) False by auto
    with False show ?thesis by simp
  qed
  have rest: "filter ?R (concat (map ?f ks)) = (if k0 \<in> set ks then filter P (?f k0) else [])"
    using Cons by simp
  have "filter ?R (concat (map ?f (k # ks))) = filter ?R (?f k) @ filter ?R (concat (map ?f ks))"
    by simp
  also have "\<dots> = (if k = k0 then filter P (?f k0) else [])
                   @ (if k0 \<in> set ks then filter P (?f k0) else [])"
    by (simp only: here rest)
  also have "\<dots> = (if k0 \<in> set (k # ks) then filter P (?f k0) else [])"
    using Cons.prems by auto
  finally show ?case .
qed

text \<open>
  Claim C5, as amended. The result of \<open>get_logs_in_window\<close> is sorted by timestamp, and the
  entries of one timestamp stand in it in the order of the scan: service after service,
  in the order of the services argument or else of the table's keys. On a store filled by
  \<open>add_log\<close> calls, with no service named twice in the argument, the entries of one
  timestamp and one scanned service are therefore the matching entries of that service's
  stored list, which is a suffix of the entries appended for the service in append order.
\<close>

theorem window_sorted_stable:
  "sorted (map log_timestamp (get_logs_in_window s start endt sv lv))
   \<and> filter (\<lambda>e. log_timestamp e = t) (get_logs_in_window s start endt sv lv)
       = filter (\<lambda>e. log_timestamp e = t) (scan_logs s start endt sv lv)
   \<and> (logs s0 = [] \<and> distinct (list_or sv [])
        \<and> service \<in> set (list_or sv (dict_keys (logs (add_log_calls s0 ls)))) \<longrightarrow>
       (let s' = add_log_calls s0 ls;
            appended = filter (\<lambda>e. log_service_name e = service) ls
        in filter (\<lambda>e. log_timestamp e = t \<and> log_service_name e = service)
             (get_logs_in_window s' start endt sv lv)
            = filter (\<lambda>e. log_timestamp e = t)
                (filter (\<lambda>e. start \<le> log_timestamp e \<and> log_timestamp e \<le> endt
                            \<and> \<not> (truthy lv \<and> not_in_filter lv (level e)))
                   (stored_logs s' service))
         \<and> stored_logs s' service
            = drop (length appended - length (stored_logs s' service)) appended))"
proof -
  have srt: "sorted (map log_timestamp (get_logs_in_window s start endt sv lv))"
    by (simp add: get_logs_in_window_def)
  have stable: "filter (\<lambda>e. log_timestamp e = t) (get_logs_in_window s' start endt sv lv)
       = filter (\<lambda>e. log_timestamp e = t) (scan_logs s' start endt sv lv)" for s'
    by (simp add: get_logs_in_window_def sort_key_stable)
  have run: "(let s' = add_log_calls s0 ls;
            appended = filter (\<lambda>e. log_service_name e = service) ls
        in filter (\<lambda>e. log_timestamp e = t \<and> log_service_name e = service)
             (get_logs_in_window s' start endt sv lv)
            = filter (\<lambda>e. log_timestamp e = t)
                (filter (\<lambda>e. start \<le> log_timestamp e \<and> log_timestamp e \<le> endt
                            \<and> \<not> (truthy lv \<and> not_in_filter lv (level e)))
                   (stored_logs s' service))
         \<and> stored_logs s' service
            = drop (length appended - length (stored_logs s' service)) appended)"
    if empty: "logs s0 = []" and dist: "distinct (list_or sv [])"
      and scanned: "service \<in> set (list_or sv (dict_keys (logs (add_log_calls s0 ls))))"
  proof -
    let ?s = "add_log_calls s0 ls"
    let ?Q = "\<lambda>e. start \<le> log_timestamp e \<and> log_timestamp e \<le> endt
                 \<and> \<not> (truthy lv \<and> not_in_filter lv (level e))"
    have inv: "distinct (dict_keys (logs ?s))"
      "\<forall>k. \<forall>e \<in> set (stored_logs ?s k). log_service_name e = k"
      using add_log_calls_invariants[of s0 ls] empty
      by (simp_all add: dict_keys_def stored_logs_def dict_get_or_def)
    have target: "distinct (list_or sv (dict_keys (logs ?s)))"
      using dist inv(1) by (auto simp: list_or_def split: option.splits list.splits)
    have scan: "scan_logs ?s start endt sv lv
        = concat (map (\<lambda>k. filter ?Q (stored_logs ?s k)) (list_or sv (dict_keys (logs ?s))))"
      by (simp add: scan_logs_def stored_logs_def)
    have "filter (\<lambda>e. log_timestamp e = t \<and> log_service_name e = service)
             (get_logs_in_window ?s start endt sv lv)
          = filter (\<lambda>e. log_service_name e = service)
              (filter (\<lambda>e. log_timestamp e = t) (get_logs_in_window ?s start endt sv lv))"
      by (simp add: conj_commute)
    also have "\<dots> = filter (\<lambda>e. log_timestamp e = t \<and> log_service_name e = service)
                      (scan_logs ?s start endt sv lv)"
      by (simp add: stable conj_commute)
    also have "\<dots> = filter (\<lambda>e. log_timestamp e = t) (filter ?Q (stored_logs ?s service))"
      unfolding scan
      using filter_concat_one_key[OF target inv(2), of "\<lambda>e. log_timestamp e = t" service ?Q]
        scanned by simp
    finally have one: "filter (\<lambda>e. log_timestamp e = t \<and> log_service_name e = service)
             (get_logs_in_window ?s start endt sv lv)
          = filter (\<lambda>e. log_timestamp e = t) (filter ?Q (stored_logs ?s service))" .
    from stored_logs_suffix[of s0 ls service] obtain n where
      "stored_logs ?s service
         = drop n (stored_logs s0 service @ filter (\<lambda>e. log_service_name e = service) ls)"
      by blast
    then have "stored_logs ?s service
         = drop n (filter (\<lambda>e. log_service_name e = service) ls)"
      using empty by (simp add: stored_logs_def dict_get_or_def)
    from drop_suffix_canon[OF this] have suffix: "stored_logs ?s service
         = drop (length (filter (\<lambda>e. log_service_name e = service) ls)
                  - length (stored_logs ?s service))
             (filter (\<lambda>e. log_service_name e = service) ls)" .
    show ?thesis
      unfolding Let_def by (rule conjI[OF one suffix])
  qed
  show ?thesis
  proof (intro conjI impI)
    show "sorted (map log_timestamp (get_logs_in_window s start endt sv lv))"
      by (rule srt)
    show "filter (\<lambda>e. log_timestamp e = t) (get_logs_in_window s start endt sv lv)
            = filter (\<lambda>e. log_timestamp e = t) (scan_logs s start endt sv lv)"
      by (rule stable)
  next
    assume "logs s0 = [] \<and> distinct (list_or sv [])
        \<and> service \<in> set (list_or sv (dict_keys (logs (add_log_calls s0 ls))))"
    then show "let s' = add_log_calls s0 ls;
            appended = filter (\<lambda>e. log_service_name e = service) ls
        in filter (\<lambda>e. log_timestamp e = t \<and> log_service_name e = service)
             (get_logs_in_window s' start endt sv lv)
            = filter (\<lambda>e. log_timestamp e = t)
                (filter (\<lambda>e. start \<le> log_timestamp e \<and> log_timestamp e \<le> endt
                            \<and> \<not> (truthy lv \<and> not_in_filter lv (level e)))
                   (stored_logs s' service))
         \<and> stored_logs s' service
            = drop (length appended - length (stored_logs s' service)) appended"
      by (elim conjE) (rule run)
  qed
qed

lemma ex_tie_store_logs:
  "logs (add_log_calls ex_store ex_tie_logs) =
     [(''a'', [ex_log ''1'' ''a'' 5, ex_log ''3'' ''a'' 5]), (''b'', [ex_log ''2'' ''b'' 5])]"
  by (simp add: ex_tie_logs_def add_log_calls_def add_log_def stored_logs_def dict_get_or_def
        Let_def ex_defs)

theorem window_sorted_stable_witness:
  "logs ex_store = [] \<and> distinct (list_or (None :: string list option) [])
   \<and> ''a'' \<in> set (list_or None (dict_keys (logs (add_log_calls ex_store ex_tie_logs))))
   \<and> filter (\<lambda>e. log_timestamp e = 5 \<and> log_service_name e = ''a'')
        (get_logs_in_window (add_log_calls ex_store ex_tie_logs) 0 10 None None)
      = [ex_log ''1'' ''a'' 5, ex_log ''3'' ''a'' 5]
   \<and> stored_logs (add_log_calls ex_store ex_tie_logs) ''a''
      = [ex_log ''1'' ''a'' 5, ex_log ''3'' ''a'' 5]"
proof -
  have h1: "logs ex_store = []" by (simp add: ex_defs)
  have h2: "distinct (list_or (None :: string list option) [])" by (simp add: list_or_def)
  have h3: "''a'' \<in> set (list_or None (dict_keys (logs (add_log_calls ex_store ex_tie_logs))))"
    by (simp add: list_or_def dict_keys_def ex_tie_store_logs)
  have st: "stored_logs (add_log_calls ex_store ex_tie_logs) ''a''
      = [ex_log ''1'' ''a'' 5, ex_log ''3'' ''a'' 5]"
    by (simp add: stored_logs_def dict_get_or_def ex_tie_store_logs)
  have f: "filter (\<lambda>e. log_timestamp e = 5)
             (filter (\<lambda>e. 0 \<le> log_timestamp e \<and> log_timestamp e \<le> 10
                         \<and> \<not> (truthy (None :: string list option) \<and> not_in_filter None (level e)))
                [ex_log ''1'' ''a'' 5, ex_log ''3'' ''a'' 5])
           = [ex_log ''1'' ''a'' 5, ex_log ''3'' ''a'' 5]"
    by (simp add: ex_log_def truthy_def)
  note inst = window_sorted_stable[where ?s0.0 = ex_store and sv = None and ls = ex_tie_logs
      and service = "''a''" and t = 5 and start = 0 and endt = 10 and lv = None
      and s = ex_store]
  from inst[THEN conjunct2, THEN conjunct2, THEN mp, OF conjI[OF h1 conjI[OF h2 h3]]]
  have "filter (\<lambda>e. log_timestamp e = 5 \<and> log_service_name e = ''a'')
        (get_logs_in_window (add_log_calls ex_store ex_tie_logs) 0 10 None None)
      = filter (\<lambda>e. log_timestamp e = 5)
             (filter (\<lambda>e. 0 \<le> log_timestamp e \<and> log_timestamp e \<le> 10
                         \<and> \<not> (truthy (None :: string list option) \<and> not_in_filter None (level e)))
                (stored_logs (add_log_calls ex_store ex_tie_logs) ''a''))"
    unfolding Let_def by (rule conjunct1)
  then have "filter (\<lambda>e. log_timestamp e = 5 \<and> log_service_name e = ''a'')
        (get_logs_in_window (add_log_calls ex_store ex_tie_logs) 0 10 None None)
      = [ex_log ''1'' ''a'' 5, ex_log ''3'' ''a'' 5]"
    unfolding st f .
  with h1 h2 h3 st show ?thesis by blast
qed

text \<open>
  Against claim C5 as stated: the second log was appended before the third and has the
  same timestamp, yet the window returns the third before the second, because service a
  is scanned before service b.
\<close>

theorem window_insertion_order_counterexample:
  "ex_tie_logs = [ex_log ''1'' ''a'' 5, ex_log ''2'' ''b'' 5, ex_log ''3'' ''a'' 5]
   \<and> log_timestamp (ex_log ''2'' ''b'' 5) = log_timestamp (ex_log ''3'' ''a'' 5)
   \<and> get_logs_in_window (add_log_calls ex_store ex_tie_logs) 0 10 None None
       = [ex_log ''1'' ''a'' 5, ex_log ''3'' ''a'' 5, ex_log ''2'' ''b'' 5]"
  by (simp add: get_logs_in_window_def scan_logs_def list_or_def truthy_def dict_keys_def
        dict_get_or_def ex_tie_store_logs)
     (simp add: ex_tie_logs_def ex_log_def)

section \<open>Trace capacity\<close>

lemma dict_set_not_Nil: "dict_set d k v \<noteq> []"
  by (induction d k v rule: dict_set.induct) auto

lemma traces_add_trace:
  "traces (fst (add_trace s trace)) =
     (let d = dict_set (traces s) (trace_id trace) trace
      in if int (length d) > max_traces s then tl d else d)"
proof (cases "dict_set (traces s) (trace_id trace) trace")
  case Nil
  then show ?thesis by (simp add: dict_set_not_Nil)
next
  case (Cons p d)
  then show ?thesis
    by (cases p) (simp add: add_trace_def Let_def)
qed

lemma max_traces_add_trace: "max_traces (fst (add_trace s trace)) = max_traces s"
  by (cases "dict_set (traces s) (trace_id trace) trace")
     (auto simp: add_trace_def Let_def split: option.splits prod.splits)

lemma add_trace_returns_id: "snd (add_trace s trace) = Inr (trace_id trace)"
proof (cases "dict_set (traces s) (trace_id trace) trace")
  case Nil
  then show ?thesis by (simp add: dict_set_not_Nil)
next
  case (Cons p d)
  then show ?thesis
    by (cases p) (simp add: add_trace_def Let_def)
qed

lemma add_trace_calls_Cons:
  "add_trace_calls s (t # ts) = add_trace_calls (fst (add_trace s t)) ts"
  by (simp add: add_trace_calls_def)

lemma max_traces_add_trace_calls: "max_traces (add_trace_calls s ts) = max_traces s"
  by (induction ts arbitrary: s) (simp_all add: add_trace_calls_def max_traces_add_trace)

lemma length_traces_add_trace:
  assumes "int (length (traces s)) \<le> max_traces s"
  shows "int (length (traces (fst (add_trace s trace)))) \<le> max_traces s"
  using assms by (auto simp: traces_add_trace Let_def length_dict_set)

lemma length_traces_add_trace_calls:
  "int (length (traces s)) \<le> max_traces s \<Longrightarrow>
   int (length (traces (add_trace_calls s ts))) \<le> max_traces s"
proof (induction ts arbitrary: s)
  case Nil
  then show ?case by (simp add: add_trace_calls_def)
next
  case (Cons t ts)
  from Cons.IH[of "fst (add_trace s t)"] length_traces_add_trace[OF Cons.prems, of t]
  show ?case
    by (simp add: add_trace_calls_Cons max_traces_add_trace)
qed

text \<open>
  Claim C4. On a store that starts without traces and whose bound is not negative, the
  number of stored traces never exceeds \<open>max_traces\<close> after any sequence of \<open>add_trace\<close>
  calls. In a store within its bound: a trace with a new id is put last, and when that
  makes the table longer than the bound the first entry of the table, the earliest
  inserted, is removed and nothing else; a trace with an id already in the table replaces
  the stored trace at its position, with no key removed or moved. With a bound of two,
  adding A, B, C leaves B and C.
\<close>

theorem trace_capacity:
  "(traces s0 = [] \<and> 0 \<le> max_traces s0 \<longrightarrow>
      int (length (traces (add_trace_calls s0 ts))) \<le> max_traces s0)
   \<and> (trace_id t_new \<notin> set (dict_keys (traces s1))
        \<and> int (length (traces s1)) \<le> max_traces s1 \<longrightarrow>
      traces (fst (add_trace s1 t_new)) =
        (if int (length (traces s1)) = max_traces s1
         then tl (traces s1 @ [(trace_id t_new, t_new)])
         else traces s1 @ [(trace_id t_new, t_new)]))
   \<and> (trace_id t_old \<in> set (dict_keys (traces s2))
        \<and> int (length (traces s2)) \<le> max_traces s2 \<longrightarrow>
      traces (fst (add_trace s2 t_old)) = dict_set (traces s2) (trace_id t_old) t_old
      \<and> dict_keys (traces (fst (add_trace s2 t_old))) = dict_keys (traces s2)
      \<and> get_trace_by_id (fst (add_trace s2 t_old)) (trace_id t_old) = Some t_old
      \<and> (tid \<noteq> trace_id t_old \<longrightarrow>
            get_trace_by_id (fst (add_trace s2 t_old)) tid = get_trace_by_id s2 tid))
   \<and> traces (add_trace_calls ex_store [ex_trace ''A'', ex_trace ''B'', ex_trace ''C''])
        = [(''B'', ex_trace ''B''), (''C'', ex_trace ''C'')]"
proof (intro conjI impI)
  assume "traces s0 = [] \<and> 0 \<le> max_traces s0"
  then have "int (length (traces s0)) \<le> max_traces s0" by simp
  then show "int (length (traces (add_trace_calls s0 ts))) \<le> max_traces s0"
    by (rule length_traces_add_trace_calls)
next
  assume "trace_id t_new \<notin> set (dict_keys (traces s1))
        \<and> int (length (traces s1)) \<le> max_traces s1"
  then show "traces (fst (add_trace s1 t_new)) =
        (if int (length (traces s1)) = max_traces s1
         then tl (traces s1 @ [(trace_id t_new, t_new)])
         else traces s1 @ [(trace_id t_new, t_new)])"
    by (auto simp: traces_add_trace Let_def dict_set_new)
next
  assume old: "trace_id t_old \<in> set (dict_keys (traces s2))
        \<and> int (length (traces s2)) \<le> max_traces s2"
  then show eq: "traces (fst (add_trace s2 t_old)) = dict_set (traces s2) (trace_id t_old) t_old"
    by (simp add: traces_add_trace Let_def length_dict_set)
  from old show "dict_keys (traces (fst (add_trace s2 t_old))) = dict_keys (traces s2)"
    by (simp add: eq dict_keys_dict_set)
  show "get_trace_by_id (fst (add_trace s2 t_old)) (trace_id t_old) = Some t_old"
    by (simp add: eq get_trace_by_id_def dict_get_def map_of_dict_set)
  assume "tid \<noteq> trace_id t_old"
  then show "get_trace_by_id (fst (add_trace s2 t_old)) tid = get_trace_by_id s2 tid"
    by (simp add: eq get_trace_by_id_def dict_get_def map_of_dict_set)
next
  show "traces (add_trace_calls ex_store [ex_trace ''A'', ex_trace ''B'', ex_trace ''C''])
        = [(''B'', ex_trace ''B''), (''C'', ex_trace ''C'')]"
    by (simp add: add_trace_calls_def traces_add_trace max_traces_add_trace Let_def ex_defs
          ex_trace_def Trace_new_def Trace_init_def model_post_init_def ex_root_span_def)
qed

lemma ex_two_traces_traces:
  "traces ex_two_traces = [(''A'', ex_trace ''A''), (''B'', ex_trace ''B'')]"
  by (simp add: ex_two_traces_def add_trace_calls_def traces_add_trace max_traces_add_trace
        Let_def ex_defs ex_trace_def Trace_new_def Trace_init_def model_post_init_def
        ex_root_span_def)

lemma ex_two_traces_max: "max_traces ex_two_traces = 2"
  by (simp add: ex_two_traces_def max_traces_add_trace_calls ex_defs)

theorem trace_capacity_witness:
  "traces ex_store = [] \<and> 0 \<le> max_traces ex_store
   \<and> int (length (traces (add_trace_calls ex_store [ex_trace ''A'', ex_trace ''B'', ex_trace ''C''])))
        \<le> 2
   \<and> trace_id (ex_trace ''C'') \<notin> set (dict_keys (traces ex_two_traces))
   \<and> int (length (traces ex_two_traces)) \<le> max_traces ex_two_traces
   \<and> traces (fst (add_trace ex_two_traces (ex_trace ''C'')))
        = [(''B'', ex_trace ''B''), (''C'', ex_trace ''C'')]
   \<and> trace_id ex_trace_A2 \<in> set (dict_keys (traces ex_two_traces))
   \<and> ''B'' \<noteq> trace_id ex_trace_A2
   \<and> traces (fst (add_trace ex_two_traces ex_trace_A2))
        = [(''A'', ex_trace_A2), (''B'', ex_trace ''B'')]
   \<and> get_trace_by_id (fst (add_trace ex_two_traces ex_trace_A2)) ''B''
        = get_trace_by_id ex_two_traces ''B''"
proof -
  have ids: "trace_id (ex_trace ''C'') = ''C''" "trace_id ex_trace_A2 = ''A''"
    by (simp_all add: ex_trace_def ex_trace_A2_def Trace_new_def Trace_init_def
          model_post_init_def)
  have h0: "traces ex_store = [] \<and> 0 \<le> max_traces ex_store" by (simp add: ex_defs)
  have m: "max_traces ex_store = 2" by (simp add: ex_defs)
  have h1: "trace_id (ex_trace ''C'') \<notin> set (dict_keys (traces ex_two_traces))
        \<and> int (length (traces ex_two_traces)) \<le> max_traces ex_two_traces"
    by (simp add: ids ex_two_traces_traces ex_two_traces_max dict_keys_def)
  have h2: "trace_id ex_trace_A2 \<in> set (dict_keys (traces ex_two_traces))
        \<and> int (length (traces ex_two_traces)) \<le> max_traces ex_two_traces"
    by (simp add: ids ex_two_traces_traces ex_two_traces_max dict_keys_def)
  have h3: "''B'' \<noteq> trace_id ex_trace_A2" by (simp add: ids)
  note inst = trace_capacity[where ?s0.0 = ex_store
      and ts = "[ex_trace ''A'', ex_trace ''B'', ex_trace ''C'']"
      and ?s1.0 = ex_two_traces and t_new = "ex_trace ''C''"
      and ?s2.0 = ex_two_traces and t_old = ex_trace_A2 and tid = "''B''"]
  from inst[THEN conjunct1, THEN mp, OF h0]
  have a: "int (length (traces (add_trace_calls ex_store
              [ex_trace ''A'', ex_trace ''B'', ex_trace ''C'']))) \<le> 2"
    unfolding m .
  from inst[THEN conjunct2, THEN conjunct1, THEN mp, OF h1]
  have b: "traces (fst (add_trace ex_two_traces (ex_trace ''C'')))
        = [(''B'', ex_trace ''B''), (''C'', ex_trace ''C'')]"
    by (simp add: ids ex_two_traces_traces ex_two_traces_max)
  from inst[THEN conjunct2, THEN conjunct2, THEN conjunct1, THEN mp, OF h2]
  have c: "traces (fst (add_trace ex_two_traces ex_trace_A2))
        = [(''A'', ex_trace_A2), (''B'', ex_trace ''B'')]"
    and d: "get_trace_by_id (fst (add_trace ex_two_traces ex_trace_A2)) ''B''
        = get_trace_by_id ex_two_traces ''B''"
    using h3 by (simp_all add: ids ex_two_traces_traces)
  from h0 a h1 b h2 h3 c d show ?thesis by blast
qed

section \<open>Retention sweep\<close>

lemma dict_set_map:
  assumes "distinct (dict_keys d)" and "k \<in> set (dict_keys d)"
  shows "dict_set d k (f (dict_get_or d k dflt))
           = map (\<lambda>(k', xs). if k' = k then (k', f xs) else (k', xs)) d"
  using assms
proof (induction d)
  case Nil
  then show ?case by (simp add: dict_keys_def)
next
  case (Cons p d)
  obtain k' xs where p: "p = (k', xs)" by (cases p)
  show ?case
  proof (cases "k' = k")
    case True
    with Cons.prems p have "k \<notin> fst ` set d" by (simp add: dict_keys_def)
    then have "map (\<lambda>(k', xs). if k' = k then (k', f xs) else (k', xs)) d = d"
      by (induction d) auto
    with True p show ?thesis by (simp add: dict_get_or_def)
  next
    case False
    with Cons.prems p have "distinct (dict_keys d)" "k \<in> set (dict_keys d)"
      by (auto simp: dict_keys_def)
    from Cons.IH[OF this] False p show ?thesis
      by (simp add: dict_get_or_def)
  qed
qed

lemma sweep_lists_map:
  assumes "distinct (dict_keys d)" and "distinct ks" and "set ks \<subseteq> set (dict_keys d)"
  shows "fst (sweep_lists ts cutoff ks d removed)
           = map (\<lambda>(k, xs). if k \<in> set ks then (k, filter (\<lambda>x. ts x > cutoff) xs) else (k, xs)) d"
  using assms
proof (induction ks arbitrary: d removed)
  case Nil
  then show ?case by (simp add: case_prod_unfold)
next
  case (Cons k ks)
  let ?p = "\<lambda>x. ts x > cutoff"
  let ?d' = "dict_set d k (filter ?p (dict_get_or d k []))"
  have k: "k \<in> set (dict_keys d)" and nk: "k \<notin> set ks" and dks: "distinct ks"
    and sub: "set ks \<subseteq> set (dict_keys d)"
    using Cons.prems by auto
  have d': "?d' = map (\<lambda>(k', xs). if k' = k then (k', filter ?p xs) else (k', xs)) d"
    using dict_set_map[OF Cons.prems(1) k, of "filter ?p" "[]"] .
  have keys: "dict_keys ?d' = dict_keys d"
    using k by (simp add: dict_keys_dict_set)
  have "fst (sweep_lists ts cutoff (k # ks) d removed)
          = map (\<lambda>(k, xs). if k \<in> set ks then (k, filter ?p xs) else (k, xs)) ?d'"
    using Cons.IH[of ?d'] Cons.prems(1) dks sub keys by (simp add: Let_def)
  also have "\<dots> = map (\<lambda>(k', xs). if k' \<in> set (k # ks) then (k', filter ?p xs) else (k', xs)) d"
    unfolding d' map_map
    by (rule map_cong[OF refl]) (use nk in \<open>auto simp: case_prod_unfold\<close>)
  finally show ?case .
qed

lemma sweep_lists_all:
  assumes "distinct (dict_keys d)"
  shows "fst (sweep_lists ts cutoff (dict_keys d) d removed)
           = map (\<lambda>(k, xs). (k, filter (\<lambda>x. ts x > cutoff) xs)) d"
proof -
  have "map (\<lambda>(k, xs). if k \<in> set (dict_keys d) then (k, filter (\<lambda>x. ts x > cutoff) xs)
                         else (k, xs)) d
          = map (\<lambda>(k, xs). (k, filter (\<lambda>x. ts x > cutoff) xs)) d"
  proof (rule map_cong[OF refl])
    fix p assume "p \<in> set d"
    then have "fst p \<in> set (dict_keys d)" by (simp add: dict_keys_def)
    then show "(case p of (k, xs) \<Rightarrow>
                  if k \<in> set (dict_keys d) then (k, filter (\<lambda>x. ts x > cutoff) xs) else (k, xs))
             = (case p of (k, xs) \<Rightarrow> (k, filter (\<lambda>x. ts x > cutoff) xs))"
      by (simp add: case_prod_unfold)
  qed
  with sweep_lists_map[OF assms assms subset_refl, of ts cutoff removed] show ?thesis
    by simp
qed

lemma dict_del_filter:
  assumes "distinct (dict_keys d)" and "k \<in> set (dict_keys d)"
  shows "dict_del d k = Some (filter (\<lambda>(k', v). k' \<noteq> k) d)"
  using assms
proof (induction d)
  case Nil
  then show ?case by (simp add: dict_keys_def)
next
  case (Cons p d)
  obtain k' v where p: "p = (k', v)" by (cases p)
  show ?case
  proof (cases "k' = k")
    case True
    with Cons.prems p have "k \<notin> fst ` set d" by (simp add: dict_keys_def)
    then have "filter (\<lambda>(k', v). k' \<noteq> k) d = d"
      by (induction d) auto
    with True p show ?thesis by simp
  next
    case False
    with Cons.prems p have "distinct (dict_keys d)" "k \<in> set (dict_keys d)"
      by (auto simp: dict_keys_def)
    from Cons.IH[OF this] False p show ?thesis by simp
  qed
qed

lemma remove_traces_filter:
  assumes "distinct (dict_keys d)" and "distinct ks" and "set ks \<subseteq> set (dict_keys d)"
  shows "remove_traces d ks = (filter (\<lambda>(k, v). k \<notin> set ks) d, None)"
  using assms
proof (induction ks arbitrary: d)
  case Nil
  then show ?case by (simp add: case_prod_unfold)
next
  case (Cons k ks)
  let ?d' = "filter (\<lambda>(k', v). k' \<noteq> k) d"
  have k: "k \<in> set (dict_keys d)" and nk: "k \<notin> set ks" and dks: "distinct ks"
    and sub: "set ks \<subseteq> set (dict_keys d)"
    using Cons.prems by auto
  have del: "dict_del d k = Some ?d'"
    by (rule dict_del_filter[OF Cons.prems(1) k])
  have "dict_keys ?d' = filter (\<lambda>k'. k' \<noteq> k) (dict_keys d)"
    by (simp add: dict_keys_def filter_map comp_def case_prod_unfold)
  then have d': "distinct (dict_keys ?d')" "set ks \<subseteq> set (dict_keys ?d')"
    using Cons.prems(1) sub nk by auto
  have "remove_traces d (k # ks) = (filter (\<lambda>(k, v). k \<notin> set ks) ?d', None)"
    using Cons.IH[OF d'(1) dks d'(2)] del by simp
  also have "filter (\<lambda>(k, v). k \<notin> set ks) ?d' = filter (\<lambda>(k', v). k' \<notin> set (k # ks)) d"
    unfolding filter_filter
    by (rule filter_cong[OF refl]) (auto simp: case_prod_unfold)
  finally show ?case .
qed

lemma max_by_key_fold: "f (max_by_key f best xs) = fold max (map f xs) (f best)"
  by (induction xs arbitrary: best) (auto simp: max_def)

lemma max_by_key_Max: "f (max_by_key f best xs) = Max (f ` set (best # xs))"
proof -
  have "Max (f ` set (best # xs)) = Max (set (map f (best # xs)))" by simp
  also have "\<dots> = fold max (map f xs) (f best)"
    unfolding list.map by (rule Max.set_eq_fold)
  finally show ?thesis by (simp add: max_by_key_fold)
qed

lemma trace_expired_iff:
  "trace_expired cutoff trace \<longleftrightarrow>
     spans trace \<noteq> [] \<and> Max (end_time ` set (spans trace)) < cutoff"
  by (cases "spans trace") (simp_all add: trace_expired_def max_by_key_Max del: set_simps)

lemma expired_ids:
  assumes "distinct (dict_keys d)"
  shows "filter (\<lambda>(k, v). k \<notin> set (map fst (filter (\<lambda>(tid, trace). P trace) d))) d
           = filter (\<lambda>(tid, trace). \<not> P trace) d"
proof (rule filter_cong[OF refl])
  fix p assume p: "p \<in> set d"
  obtain k v where kv: "p = (k, v)" by (cases p)
  have "k \<in> fst ` {q \<in> set d. P (snd q)} \<longleftrightarrow> P v"
  proof
    assume "k \<in> fst ` {q \<in> set d. P (snd q)}"
    then obtain v' where "(k, v') \<in> set d" "P v'" by auto
    with p kv assms have "v' = v"
      by (metis dict_keys_def eq_key_imp_eq_value)
    with \<open>P v'\<close> show "P v" by simp
  next
    assume "P v"
    with p kv show "k \<in> fst ` {q \<in> set d. P (snd q)}" by force
  qed
  then show "(case p of (k, v) \<Rightarrow> k \<notin> set (map fst (filter (\<lambda>(tid, trace). P trace) d)))
           = (case p of (tid, trace) \<Rightarrow> \<not> P trace)"
    by (simp add: kv case_prod_unfold)
qed

lemma map_of_map_values:
  "map_of (map (\<lambda>(k, xs). (k, f xs)) d) k = map_option f (map_of d k)"
  by (induction d) auto

lemma cleanup_old_data_result:
  assumes "distinct (dict_keys (logs s))" and "distinct (dict_keys (metrics s))"
    and "distinct (dict_keys (traces s))"
  shows "logs (fst (cleanup_old_data s now))
           = map (\<lambda>(k, xs). (k, filter (\<lambda>e. log_timestamp e > now - retention s) xs)) (logs s)"
    and "metrics (fst (cleanup_old_data s now))
           = map (\<lambda>(k, xs). (k, filter (\<lambda>m. metric_timestamp m > now - retention s) xs))
               (metrics s)"
    and "traces (fst (cleanup_old_data s now))
           = filter (\<lambda>(tid, trace). \<not> trace_expired (now - retention s) trace) (traces s)"
    and "\<exists>r. snd (cleanup_old_data s now) = Inr r"
proof -
  let ?c = "now - retention s"
  let ?ids = "map fst (filter (\<lambda>(tid, trace). trace_expired ?c trace) (traces s))"
  have ids: "distinct ?ids" "set ?ids \<subseteq> set (dict_keys (traces s))"
    using assms(3) by (auto simp: dict_keys_def distinct_map_filter)
  have rt: "remove_traces (traces s) ?ids
              = (filter (\<lambda>(tid, trace). \<not> trace_expired ?c trace) (traces s), None)"
    using remove_traces_filter[OF assms(3) ids] expired_ids[OF assms(3), of "trace_expired ?c"]
    by simp
  obtain n_logs where sl: "sweep_lists log_timestamp ?c (dict_keys (logs s)) (logs s) 0
              = (map (\<lambda>(k, xs). (k, filter (\<lambda>e. log_timestamp e > ?c) xs)) (logs s), n_logs)"
    using sweep_lists_all[OF assms(1), of log_timestamp ?c 0]
    by (cases "sweep_lists log_timestamp ?c (dict_keys (logs s)) (logs s) 0") simp
  obtain n_metrics where
    sm: "sweep_lists metric_timestamp ?c (dict_keys (metrics s)) (metrics s) 0
              = (map (\<lambda>(k, xs). (k, filter (\<lambda>m. metric_timestamp m > ?c) xs)) (metrics s),
                 n_metrics)"
    using sweep_lists_all[OF assms(2), of metric_timestamp ?c 0]
    by (cases "sweep_lists metric_timestamp ?c (dict_keys (metrics s)) (metrics s) 0") simp
  show "logs (fst (cleanup_old_data s now))
           = map (\<lambda>(k, xs). (k, filter (\<lambda>e. log_timestamp e > ?c) xs)) (logs s)"
    unfolding cleanup_old_data_def Let_def by (simp add: sl sm rt)
  show "metrics (fst (cleanup_old_data s now))
           = map (\<lambda>(k, xs). (k, filter (\<lambda>m. metric_timestamp m > ?c) xs)) (metrics s)"
    unfolding cleanup_old_data_def Let_def by (simp add: sl sm rt)
  show "traces (fst (cleanup_old_data s now))
           = filter (\<lambda>(tid, trace). \<not> trace_expired ?c trace) (traces s)"
    unfolding cleanup_old_data_def Let_def by (simp add: sl sm rt)
  show "\<exists>r. snd (cleanup_old_data s now) = Inr r"
    unfolding cleanup_old_data_def Let_def by (simp add: sl sm rt)
qed

text \<open>
  Claim C3. On a store whose tables have distinct keys (as every Python dictionary has),
  \<open>cleanup_old_data\<close> at time \<open>now\<close> returns normally and, with cutoff
  \<open>now - retention\<close>, leaves for every service the stored logs and metrics whose timestamp
  is not at or before the cutoff, in their old order and under the same keys, and leaves
  the traces that are not both non-empty and with the greatest end time of their spans
  before the cutoff, in their old order; so a trace without spans always stays.
\<close>

theorem retention_sweep:
  assumes "distinct (dict_keys (logs s))" and "distinct (dict_keys (metrics s))"
    and "distinct (dict_keys (traces s))"
  shows "(let cutoff = now - retention s; s' = fst (cleanup_old_data s now)
          in dict_keys (logs s') = dict_keys (logs s)
           \<and> dict_keys (metrics s') = dict_keys (metrics s)
           \<and> stored_logs s' service
               = filter (\<lambda>e. \<not> log_timestamp e \<le> cutoff) (stored_logs s service)
           \<and> stored_metrics s' service
               = filter (\<lambda>m. \<not> metric_timestamp m \<le> cutoff) (stored_metrics s service)
           \<and> traces s'
               = filter (\<lambda>(tid, trace).
                    \<not> (spans trace \<noteq> [] \<and> Max (end_time ` set (spans trace)) < cutoff))
                   (traces s)
           \<and> (\<exists>r. snd (cleanup_old_data s now) = Inr r))"
proof -
  let ?c = "now - retention s"
  let ?s' = "fst (cleanup_old_data s now)"
  note r = cleanup_old_data_result[OF assms, of now]
  have gt: "(\<lambda>x::int. x > ?c) = (\<lambda>x. \<not> x \<le> ?c)" by auto
  have kl: "dict_keys (logs ?s') = dict_keys (logs s)"
    unfolding r(1) by (simp add: dict_keys_def case_prod_unfold comp_def)
  have km: "dict_keys (metrics ?s') = dict_keys (metrics s)"
    unfolding r(2) by (simp add: dict_keys_def case_prod_unfold comp_def)
  have sl: "stored_logs ?s' service
              = filter (\<lambda>e. \<not> log_timestamp e \<le> ?c) (stored_logs s service)"
    unfolding stored_logs_def dict_get_or_def r(1) map_of_map_values
    by (cases "map_of (logs s) service") (simp_all add: not_le)
  have sm: "stored_metrics ?s' service
              = filter (\<lambda>m. \<not> metric_timestamp m \<le> ?c) (stored_metrics s service)"
    unfolding stored_metrics_def dict_get_or_def r(2) map_of_map_values
    by (cases "map_of (metrics s) service") (simp_all add: not_le)
  have tr: "traces ?s'
              = filter (\<lambda>(tid, trace).
                    \<not> (spans trace \<noteq> [] \<and> Max (end_time ` set (spans trace)) < ?c))
                  (traces s)"
    unfolding r(3) trace_expired_iff ..
  from kl km sl sm tr r(4) show ?thesis
    unfolding Let_def by blast
qed

lemma ex_sweep_store_fields:
  "logs ex_sweep_store =
     [(''x'', [ex_log ''1'' ''x'' 99, ex_log ''2'' ''x'' 100, ex_log ''3'' ''x'' 101]),
      (''y'', [ex_log ''4'' ''y'' 50])]"
  "metrics ex_sweep_store =
     [(''x'', [ex_metric ''1'' ''x'' ''cpu'' 100, ex_metric ''2'' ''x'' ''cpu'' 101])]"
  "traces ex_sweep_store =
     [(''old'', Trace_new ''old'' [ex_span ''old'' ''a'' 10 99, ex_span ''old'' ''b'' 10 20]),
      (''live'', Trace_new ''live'' [ex_span ''live'' ''a'' 10 20, ex_span ''live'' ''b'' 10 100]),
      (''empty'', Trace_new ''empty'' [])]"
  "retention ex_sweep_store = 86400000000"
  by (simp_all add: ex_sweep_store_def add_trace_calls_def add_trace_def add_metric_calls_def
        add_metric_def add_log_calls_def add_log_def stored_logs_def stored_metrics_def
        dict_get_or_def Let_def ex_defs Trace_new_def Trace_init_def model_post_init_def
        ex_span_def)

theorem retention_sweep_witness:
  "distinct (dict_keys (logs ex_sweep_store)) \<and> distinct (dict_keys (metrics ex_sweep_store))
   \<and> distinct (dict_keys (traces ex_sweep_store))
   \<and> stored_logs (fst (cleanup_old_data ex_sweep_store ex_now)) ''x'' = [ex_log ''3'' ''x'' 101]
   \<and> stored_metrics (fst (cleanup_old_data ex_sweep_store ex_now)) ''x''
        = [ex_metric ''2'' ''x'' ''cpu'' 101]
   \<and> dict_keys (traces (fst (cleanup_old_data ex_sweep_store ex_now))) = [''live'', ''empty'']"
proof -
  have h1: "distinct (dict_keys (logs ex_sweep_store))"
    and h2: "distinct (dict_keys (metrics ex_sweep_store))"
    and h3: "distinct (dict_keys (traces ex_sweep_store))"
    by (simp_all add: ex_sweep_store_fields dict_keys_def)
  have c: "ex_now - retention ex_sweep_store = 100"
    by (simp add: ex_sweep_store_fields ex_now_def)
  have sp: "spans (Trace_new tid sps) = sps" for tid sps
    by (simp add: Trace_new_def Trace_init_def model_post_init_def Let_def
          split: option.splits list.splits)
  note inst = retention_sweep[OF h1 h2 h3, where now = ex_now and service = "''x''",
      unfolded Let_def c]
  have a: "stored_logs (fst (cleanup_old_data ex_sweep_store ex_now)) ''x''
             = [ex_log ''3'' ''x'' 101]"
    using inst by (simp add: stored_logs_def dict_get_or_def ex_sweep_store_fields ex_log_def)
  have b: "stored_metrics (fst (cleanup_old_data ex_sweep_store ex_now)) ''x''
             = [ex_metric ''2'' ''x'' ''cpu'' 101]"
    using inst
    by (simp add: stored_metrics_def dict_get_or_def ex_sweep_store_fields ex_metric_def)
  have t: "dict_keys (traces (fst (cleanup_old_data ex_sweep_store ex_now))) = [''live'', ''empty'']"
    using inst by (simp add: ex_sweep_store_fields sp ex_span_def dict_keys_def)
  from h1 h2 h3 a b t show ?thesis by blast
qed

section \<open>Point lookups after the retention sweep\<close>

text \<open>
  \<open>cleanup_old_data\<close> assigns the three tables and nothing else: the by-id indexes, the
  registry and the counters of the store it returns are those of the store it was given.
\<close>

lemma cleanup_old_data_frame:
  "logs_by_id (fst (cleanup_old_data s now)) = logs_by_id s"
  "metrics_by_id (fst (cleanup_old_data s now)) = metrics_by_id s"
  "services (fst (cleanup_old_data s now)) = services s"
  "logs_ingested (fst (cleanup_old_data s now)) = logs_ingested s"
  "metrics_ingested (fst (cleanup_old_data s now)) = metrics_ingested s"
  "traces_ingested (fst (cleanup_old_data s now)) = traces_ingested s"
  by (simp_all add: cleanup_old_data_def Let_def case_prod_unfold split: option.splits)

lemma get_by_id_after_cleanup:
  "get_log_by_id (fst (cleanup_old_data s now)) lid = get_log_by_id s lid"
  "get_metric_by_id (fst (cleanup_old_data s now)) mid = get_metric_by_id s mid"
  by (simp_all add: get_log_by_id_def get_metric_by_id_def cleanup_old_data_frame)

lemma ex_sweep_store_index:
  "logs_by_id ex_sweep_store ''1'' = Some (ex_log ''1'' ''x'' 99)"
  "logs_by_id ex_sweep_store ''never'' = None"
  "metrics_by_id ex_sweep_store ''1'' = Some (ex_metric ''1'' ''x'' ''cpu'' 100)"
  "metrics_by_id ex_sweep_store ''never'' = None"
  by (simp_all add: ex_sweep_store_def add_trace_calls_def add_trace_def add_metric_calls_def
        add_metric_def add_log_calls_def add_log_def stored_logs_def stored_metrics_def
        dict_get_or_def Let_def ex_defs Trace_new_def Trace_init_def model_post_init_def
        ex_span_def)

text \<open>
  Claim C1 fails on the code. In the example store the log with id 1 (timestamp 99) and
  the metric with id 1 (timestamp 100) are stored, the sweep with cutoff 100 removes both
  from their service's list, and the lookups by id still return them afterwards, unlike
  the lookup of an id that never existed. Capacity eviction and \<open>clear\<close> do remove the
  index entry: after five appends under a bound of three the first id is absent, and
  after \<open>clear\<close> every id is.
\<close>

theorem sweep_leaves_id_index:
  "ex_log ''1'' ''x'' 99 \<in> set (stored_logs ex_sweep_store ''x'')
   \<and> ex_log ''1'' ''x'' 99 \<notin> set (stored_logs (fst (cleanup_old_data ex_sweep_store ex_now)) ''x'')
   \<and> get_log_by_id (fst (cleanup_old_data ex_sweep_store ex_now)) ''1''
        = Some (ex_log ''1'' ''x'' 99)
   \<and> get_log_by_id (fst (cleanup_old_data ex_sweep_store ex_now)) ''never'' = None
   \<and> ex_metric ''1'' ''x'' ''cpu'' 100 \<in> set (stored_metrics ex_sweep_store ''x'')
   \<and> ex_metric ''1'' ''x'' ''cpu'' 100
        \<notin> set (stored_metrics (fst (cleanup_old_data ex_sweep_store ex_now)) ''x'')
   \<and> get_metric_by_id (fst (cleanup_old_data ex_sweep_store ex_now)) ''1''
        = Some (ex_metric ''1'' ''x'' ''cpu'' 100)
   \<and> get_metric_by_id (fst (cleanup_old_data ex_sweep_store ex_now)) ''never'' = None
   \<and> get_log_by_id (add_log_calls ex_store ex_five_logs) ''1'' = None
   \<and> get_log_by_id (clear ex_sweep_store) ''1'' = None"
proof -
  have h1: "distinct (dict_keys (logs ex_sweep_store))"
    and h2: "distinct (dict_keys (metrics ex_sweep_store))"
    and h3: "distinct (dict_keys (traces ex_sweep_store))"
    by (simp_all add: ex_sweep_store_fields dict_keys_def)
  have c: "ex_now - retention ex_sweep_store = 100"
    by (simp add: ex_sweep_store_fields ex_now_def)
  note r = cleanup_old_data_result[OF h1 h2 h3, of ex_now, unfolded c]
  have before: "ex_log ''1'' ''x'' 99 \<in> set (stored_logs ex_sweep_store ''x'')"
    "ex_metric ''1'' ''x'' ''cpu'' 100 \<in> set (stored_metrics ex_sweep_store ''x'')"
    by (simp_all add: stored_logs_def stored_metrics_def dict_get_or_def ex_sweep_store_fields)
  have after: "stored_logs (fst (cleanup_old_data ex_sweep_store ex_now)) ''x''
                 = [ex_log ''3'' ''x'' 101]"
    "stored_metrics (fst (cleanup_old_data ex_sweep_store ex_now)) ''x''
                 = [ex_metric ''2'' ''x'' ''cpu'' 101]"
    by (simp_all add: stored_logs_def stored_metrics_def dict_get_or_def r
          ex_sweep_store_fields ex_log_def ex_metric_def)
  have gone: "ex_log ''1'' ''x'' 99
        \<notin> set (stored_logs (fst (cleanup_old_data ex_sweep_store ex_now)) ''x'')"
    "ex_metric ''1'' ''x'' ''cpu'' 100
        \<notin> set (stored_metrics (fst (cleanup_old_data ex_sweep_store ex_now)) ''x'')"
    unfolding after by (simp_all add: ex_log_def ex_metric_def)
  have found: "get_log_by_id (fst (cleanup_old_data ex_sweep_store ex_now)) ''1''
        = Some (ex_log ''1'' ''x'' 99)"
    "get_log_by_id (fst (cleanup_old_data ex_sweep_store ex_now)) ''never'' = None"
    "get_metric_by_id (fst (cleanup_old_data ex_sweep_store ex_now)) ''1''
        = Some (ex_metric ''1'' ''x'' ''cpu'' 100)"
    "get_metric_by_id (fst (cleanup_old_data ex_sweep_store ex_now)) ''never'' = None"
    unfolding get_by_id_after_cleanup
    by (simp_all add: get_log_by_id_def get_metric_by_id_def ex_sweep_store_index)
  have evicted: "get_log_by_id (add_log_calls ex_store ex_five_logs) ''1'' = None"
    by (simp add: get_log_by_id_def add_log_calls_def add_log_def stored_logs_def
          dict_get_or_def Let_def ex_five_logs_def ex_defs)
  have cleared: "get_log_by_id (clear ex_sweep_store) ''1'' = None"
    by (simp add: get_log_by_id_def clear_def)
  from before gone found evicted cleared show ?thesis by blast
qed

section \<open>The tables keep distinct keys\<close>

text \<open>
  The hypothesis of the sweep theorem is an invariant of the model: the constructor
  establishes it and every operation of the store preserves it.
\<close>

lemma keys_distinct_init:
  "distinct (dict_keys (logs (TelemetryStore_init cfg rh ml mm mt)))"
  "distinct (dict_keys (metrics (TelemetryStore_init cfg rh ml mm mt)))"
  "distinct (dict_keys (traces (TelemetryStore_init cfg rh ml mm mt)))"
  by (simp_all add: TelemetryStore_init_def dict_keys_def)

lemma add_log_other_tables:
  "metrics (fst (add_log s entry)) = metrics s"
  "traces (fst (add_log s entry)) = traces s"
  by (auto simp: add_log_def Let_def split: list.splits option.splits)

lemma keys_distinct_add_log:
  assumes "distinct (dict_keys (logs s))" and "distinct (dict_keys (metrics s))"
    and "distinct (dict_keys (traces s))"
  shows "distinct (dict_keys (logs (fst (add_log s entry))))"
    and "distinct (dict_keys (metrics (fst (add_log s entry))))"
    and "distinct (dict_keys (traces (fst (add_log s entry))))"
  using assms by (simp_all add: dict_keys_add_log add_log_other_tables)

lemma dict_keys_add_metric:
  "dict_keys (metrics (fst (add_metric s m))) =
     (if metric_service_name m \<in> set (dict_keys (metrics s)) then dict_keys (metrics s)
      else dict_keys (metrics s) @ [metric_service_name m])"
  by (auto simp: add_metric_def Let_def stored_metrics_def dict_get_or_dict_set
        dict_keys_dict_set split: list.splits option.splits)

lemma add_metric_other_tables:
  "logs (fst (add_metric s m)) = logs s"
  "traces (fst (add_metric s m)) = traces s"
  by (auto simp: add_metric_def Let_def split: list.splits option.splits)

lemma keys_distinct_add_metric:
  assumes "distinct (dict_keys (logs s))" and "distinct (dict_keys (metrics s))"
    and "distinct (dict_keys (traces s))"
  shows "distinct (dict_keys (logs (fst (add_metric s m))))"
    and "distinct (dict_keys (metrics (fst (add_metric s m))))"
    and "distinct (dict_keys (traces (fst (add_metric s m))))"
  using assms by (simp_all add: dict_keys_add_metric add_metric_other_tables)

lemma add_trace_other_tables:
  "logs (fst (add_trace s trace)) = logs s"
  "metrics (fst (add_trace s trace)) = metrics s"
  by (cases "dict_set (traces s) (trace_id trace) trace";
      auto simp: add_trace_def Let_def split: option.splits prod.splits)+

lemma keys_distinct_add_trace:
  assumes "distinct (dict_keys (logs s))" and "distinct (dict_keys (metrics s))"
    and "distinct (dict_keys (traces s))"
  shows "distinct (dict_keys (logs (fst (add_trace s trace))))"
    and "distinct (dict_keys (metrics (fst (add_trace s trace))))"
    and "distinct (dict_keys (traces (fst (add_trace s trace))))"
proof -
  let ?d = "dict_set (traces s) (trace_id trace) trace"
  have d: "distinct (dict_keys ?d)"
    using assms(3) by (simp add: dict_keys_dict_set)
  have "dict_keys (tl ?d) = tl (dict_keys ?d)"
    by (simp add: dict_keys_def map_tl)
  with d have "distinct (dict_keys (tl ?d))"
    by (simp add: distinct_tl)
  with d show "distinct (dict_keys (traces (fst (add_trace s trace))))"
    by (simp add: traces_add_trace Let_def)
qed (use assms in \<open>simp_all add: add_trace_other_tables\<close>)

lemma keys_distinct_cleanup:
  assumes "distinct (dict_keys (logs s))" and "distinct (dict_keys (metrics s))"
    and "distinct (dict_keys (traces s))"
  shows "distinct (dict_keys (logs (fst (cleanup_old_data s now))))"
    and "distinct (dict_keys (metrics (fst (cleanup_old_data s now))))"
    and "distinct (dict_keys (traces (fst (cleanup_old_data s now))))"
proof -
  note r = cleanup_old_data_result[OF assms, of now]
  show "distinct (dict_keys (logs (fst (cleanup_old_data s now))))"
    using assms(1) unfolding r(1) by (simp add: dict_keys_def case_prod_unfold comp_def)
  show "distinct (dict_keys (metrics (fst (cleanup_old_data s now))))"
    using assms(2) unfolding r(2) by (simp add: dict_keys_def case_prod_unfold comp_def)
  show "distinct (dict_keys (traces (fst (cleanup_old_data s now))))"
    using assms(3) unfolding r(3) by (simp add: dict_keys_def distinct_map_filter)
qed

lemma keys_distinct_clear:
  "distinct (dict_keys (logs (clear s)))"
  "distinct (dict_keys (metrics (clear s)))"
  "distinct (dict_keys (traces (clear s)))"
  by (simp_all add: clear_def dict_keys_def)

end
